theory Spec2Isabelle
  imports Main "HOL-Library.Word"
begin

section \<open>Foreign transaction manager (fdwxact.c): data model\<close>

text \<open>
  Oids and transaction ids are unsigned 32-bit values, WAL positions unsigned 64-bit
  values, backend ids are C ints. A pointer to a slot of the shared pool of
  \<open>FdwXactData\<close> structs is the index of the slot; \<open>NULL\<close> is \<open>None\<close>.
\<close>

type_synonym Oid = "32 word"
type_synonym TransactionId = "32 word"
type_synonym XLogRecPtr = "64 word"
type_synonym BackendId = int
type_synonym FdwXact = nat

definition InvalidOid :: Oid where
  "InvalidOid = 0"

definition InvalidTransactionId :: TransactionId where
  "InvalidTransactionId = 0"

definition InvalidXLogRecPtr :: XLogRecPtr where
  "InvalidXLogRecPtr = 0"

definition InvalidBackendId :: BackendId where
  "InvalidBackendId = - 1"

definition FDW_XACT_ID_MAX_LEN :: nat where
  "FDW_XACT_ID_MAX_LEN = 200"

definition OidIsValid :: "Oid \<Rightarrow> bool" where
  "OidIsValid objectId = (objectId \<noteq> InvalidOid)"

definition XLogRecPtrIsInvalid :: "XLogRecPtr \<Rightarrow> bool" where
  "XLogRecPtrIsInvalid r = (r = InvalidXLogRecPtr)"

datatype FdwXactStatus =
    FDW_XACT_INITIAL
  | FDW_XACT_PREPARING
  | FDW_XACT_PREPARED
  | FDW_XACT_COMMITTING_PREPARED
  | FDW_XACT_ABORTING_PREPARED

datatype DistributedAtomicCommitLevel =
    DISTRIBUTED_ATOMIC_COMMIT_DISABLED
  | DISTRIBUTED_ATOMIC_COMMIT_PREFER
  | DISTRIBUTED_ATOMIC_COMMIT_REQUIRED

text \<open>The shared-memory entry \<open>FdwXactData\<close> of fdwxact.h, field by field.\<close>

record FdwXactData =
  fxact_free_next :: "FdwXact option"
  fxact_next :: "FdwXact option"
  dbid :: Oid
  local_xid :: TransactionId
  serverid :: Oid
  userid :: Oid
  umid :: Oid
  status :: FdwXactStatus
  insert_start_lsn :: XLogRecPtr
  insert_end_lsn :: XLogRecPtr
  valid :: bool
  held_by :: BackendId
  ondisk :: bool
  inredo :: bool
  fdw_xact_id :: string

text \<open>
  The two WAL record types of the resource manager. \<open>XLOG_FDW_XACT_INSERT\<close> carries
  \<open>FdwXactOnDiskData\<close> (dbid, local xid, serverid, userid, umid, identifier),
  \<open>XLOG_FDW_XACT_REMOVE\<close> carries \<open>xl_fdw_xact_remove\<close> (dbid, xid, serverid, userid).
\<close>

datatype xl_record =
    XLOG_FDW_XACT_INSERT Oid TransactionId Oid Oid Oid string
  | XLOG_FDW_XACT_REMOVE Oid TransactionId Oid Oid

text \<open>A state file of \<open>pg_fdw_xact\<close> is named by (dbid, xid, serverid, userid).\<close>

type_synonym fxfile = "Oid \<times> TransactionId \<times> Oid \<times> Oid"

text \<open>The argument bundle \<open>FdwXactState\<close> handed to the FDW callbacks.\<close>

record FdwXactState =
  st_serverid :: Oid
  st_userid :: Oid
  st_umid :: Oid
  st_fdwxact_id :: "string option"

text \<open>
  What an observer can see happen, in order: a WAL record reaching disk through
  \<open>XLogFlush\<close>, a call of an FDW callback with its result, the unlink of a state file.
\<close>

datatype event =
    EvXLogFlush xl_record
  | EvPrepare FdwXactState bool
  | EvCommit FdwXactState bool
  | EvResolve FdwXactState bool bool
  | EvUnlink fxfile

text \<open>Decimal output as \<open>snprintf\<close> produces it for \<open>%u\<close>, \<open>%ld\<close> and \<open>%d\<close>.\<close>

fun dec_digits :: "nat \<Rightarrow> string" where
  "dec_digits n =
     (if n < 10 then [char_of (48 + n)]
      else dec_digits (n div 10) @ [char_of (48 + n mod 10)])"

declare dec_digits.simps [simp del]

definition dec_signed :: "int \<Rightarrow> string" where
  "dec_signed i = (if i < 0 then CHR ''-'' # dec_digits (nat (- i)) else dec_digits (nat i))"

text \<open>
  Every \<open>ereport(ERROR, ...)\<close> of the modelled functions, one constructor per call
  site, with the SQLSTATE and the hint the call site gives. The last constructor is
  not an \<open>ereport\<close>: it stands for a store outside the identifier buffer, after
  which the behaviour of the C program is undefined.
\<close>

datatype error =
    ErrCannotCommitWithoutAtomicCommit
  | ErrPreparedDisabledNoSlots
  | ErrPreparedDisabledNoResolvers
  | ErrIdentifierNotProvided
  | ErrIdentifierTooLong string
  | ErrCouldNotPrepare Oid
  | ErrCouldNotCommit Oid
  | ErrDuplicateEntry TransactionId Oid Oid
  | ErrMaxForeignTransactionsReached int
  | ErrEntryNotFound TransactionId Oid Oid
  | ErrLocalTransactionInProgress TransactionId Oid
  | ErrCouldNotResolve bool Oid
  | ErrNoSuchEntry
  | ErrMustBeSuperuser
  | ErrNoPrepareFunction
  | ErrNoCommitFunction
  | ErrNoRollbackFunction
  | ErrNullDereference
  | ErrCouldNotReadXlog XLogRecPtr
  | ErrUnexpectedXlogRecord XLogRecPtr
  | UndefinedStoreBeforeIdentifier int

datatype sqlstate =
    ERRCODE_INTERNAL_ERROR
  | ERRCODE_FEATURE_NOT_SUPPORTED
  | ERRCODE_OBJECT_NOT_IN_PREREQUISITE_STATE
  | ERRCODE_UNDEFINED_OBJECT
  | ERRCODE_NAME_TOO_LONG
  | ERRCODE_OUT_OF_MEMORY
  | ERRCODE_INSUFFICIENT_PRIVILEGE

fun errcode :: "error \<Rightarrow> sqlstate" where
  "errcode ErrCannotCommitWithoutAtomicCommit = ERRCODE_FEATURE_NOT_SUPPORTED"
| "errcode ErrPreparedDisabledNoSlots = ERRCODE_OBJECT_NOT_IN_PREREQUISITE_STATE"
| "errcode ErrPreparedDisabledNoResolvers = ERRCODE_OBJECT_NOT_IN_PREREQUISITE_STATE"
| "errcode ErrIdentifierNotProvided = ERRCODE_UNDEFINED_OBJECT"
| "errcode (ErrIdentifierTooLong _) = ERRCODE_NAME_TOO_LONG"
| "errcode (ErrMaxForeignTransactionsReached _) = ERRCODE_OUT_OF_MEMORY"
| "errcode ErrNoSuchEntry = ERRCODE_UNDEFINED_OBJECT"
| "errcode ErrMustBeSuperuser = ERRCODE_INSUFFICIENT_PRIVILEGE"
| "errcode _ = ERRCODE_INTERNAL_ERROR"

fun errhint :: "error \<Rightarrow> string option" where
  "errhint ErrPreparedDisabledNoSlots =
     Some ''Set max_prepared_foreign_transactions to a nonzero value.''"
| "errhint ErrPreparedDisabledNoResolvers =
     Some ''Set max_foreign_transaction_resolvers to a nonzero value.''"
| \<open>errhint (ErrMaxForeignTransactionsReached max_prepared_foreign_xacts) =
     Some (''Increase max_prepared_foreign_transactions: "'' @
           dec_signed max_prepared_foreign_xacts @ ''".'')\<close>
| "errhint _ = None"

subsection \<open>Shared state\<close>

text \<open>
  \<open>FdwXactCtlData\<close> with the memory behind it. \<open>freeFdwXacts\<close> is the head of the free
  list, which is threaded through \<open>fxact_free_next\<close> of the pool slots.
  \<open>fdw_xacts\<close> holds the live prefix \<open>fdw_xacts[0 .. numFdwXacts - 1]\<close> of the array, so
  \<open>numFdwXacts\<close> is its length. \<open>pool\<close> is the array of \<open>FdwXactData\<close> structs laid out
  behind the header. Beside the table the state holds what the functions reach
  through the WAL and file interfaces: the records inserted so far with the start
  and end position \<open>XLogInsert\<close> gave them, how many of them \<open>XLogFlush\<close> has made
  durable, the state files present in \<open>pg_fdw_xact\<close>, whether recovery is in
  progress, and the history of observable events.
  \<open>XLogInsert_lsn n\<close> is the pair (\<open>ProcLastRecPtr\<close>, returned end position) that the
  WAL subsystem assigns to the record inserted when \<open>n\<close> records are already there.
\<close>

record shmem =
  freeFdwXacts :: "FdwXact option"
  fdw_xacts :: "FdwXact list"
  pool :: "FdwXact \<Rightarrow> FdwXactData"
  xlog :: "(XLogRecPtr \<times> XLogRecPtr \<times> xl_record) list"
  xlog_flushed :: nat
  XLogInsert_lsn :: "nat \<Rightarrow> XLogRecPtr \<times> XLogRecPtr"
  files :: "fxfile set"
  RecoveryInProgress :: bool
  history :: "event list"

definition numFdwXacts :: "shmem \<Rightarrow> nat" where
  "numFdwXacts s = length (fdw_xacts s)"

definition blank_FdwXactData :: FdwXactData where
  "blank_FdwXactData =
     \<lparr>fxact_free_next = None, fxact_next = None, dbid = 0, local_xid = 0, serverid = 0,
      userid = 0, umid = 0, status = FDW_XACT_INITIAL, insert_start_lsn = 0,
      insert_end_lsn = 0, valid = False, held_by = 0, ondisk = False, inredo = False,
      fdw_xact_id = []\<rparr>"

text \<open>
  \<open>FdwXactShmemInit\<close> in the postmaster: shared memory starts zeroed, then the loop
  \<open>for (cnt = 0; cnt < max_prepared_foreign_xacts; cnt++)\<close> pushes every slot on
  the free list, so the last slot ends up at the head.
\<close>

fun init_free_list ::
  "nat \<Rightarrow> nat \<Rightarrow> FdwXact option \<Rightarrow> (FdwXact \<Rightarrow> FdwXactData) \<Rightarrow>
   FdwXact option \<times> (FdwXact \<Rightarrow> FdwXactData)" where
  "init_free_list 0 cnt head pl = (head, pl)"
| "init_free_list (Suc n) cnt head pl =
     init_free_list n (Suc cnt) (Some cnt)
       (pl(cnt := (pl cnt)\<lparr>status := FDW_XACT_INITIAL, fxact_free_next := head\<rparr>))"

definition FdwXactShmemInit :: "int \<Rightarrow> (nat \<Rightarrow> XLogRecPtr \<times> XLogRecPtr) \<Rightarrow> shmem" where
  "FdwXactShmemInit max_prepared_foreign_xacts lsns =
     (let (head, pl) =
        init_free_list (nat max_prepared_foreign_xacts) 0 None (\<lambda>_. blank_FdwXactData)
      in \<lparr>freeFdwXacts = head, fdw_xacts = [], pool = pl, xlog = [], xlog_flushed = 0,
          XLogInsert_lsn = lsns, files = {}, RecoveryInProgress = False, history = []\<rparr>)"

subsection \<open>The WAL interface as the functions use it\<close>

text \<open>
  \<open>XLogBeginInsert; XLogRegisterData; XLogInsert; XLogFlush\<close>: the record is appended
  at the position the WAL subsystem assigns, and the flush makes everything up to
  it durable (the flush position never moves backwards). The result is
  (\<open>ProcLastRecPtr\<close>, end position, new state).
\<close>

definition XLogInsertAndFlush :: "shmem \<Rightarrow> xl_record \<Rightarrow> XLogRecPtr \<times> XLogRecPtr \<times> shmem" where
  "XLogInsertAndFlush s r =
     (let (start_lsn, end_lsn) = XLogInsert_lsn s (length (xlog s));
          s1 = s\<lparr>xlog := xlog s @ [(start_lsn, end_lsn, r)]\<rparr>;
          s2 = s1\<lparr>xlog_flushed := max (xlog_flushed s1) (length (xlog s1)),
                 history := history s1 @ [EvXLogFlush r]\<rparr>
      in (start_lsn, end_lsn, s2))"

text \<open>\<open>RemoveFdwXactFile\<close>: unlink the state file named by the key.\<close>

definition RemoveFdwXactFile :: "shmem \<Rightarrow> Oid \<Rightarrow> TransactionId \<Rightarrow> Oid \<Rightarrow> Oid \<Rightarrow> shmem" where
  "RemoveFdwXactFile s d x sv u =
     s\<lparr>files := files s - {(d, x, sv, u)}, history := history s @ [EvUnlink (d, x, sv, u)]\<rparr>"

subsection \<open>The FXact table: insert, remove, search\<close>

text \<open>The duplicate check of \<open>insert_fdw_xact\<close>: the loop over the live array.\<close>

fun has_duplicate ::
  "(FdwXact \<Rightarrow> FdwXactData) \<Rightarrow> FdwXact list \<Rightarrow> Oid \<Rightarrow> TransactionId \<Rightarrow> Oid \<Rightarrow> Oid \<Rightarrow> bool" where
  "has_duplicate pl [] d x sv u = False"
| "has_duplicate pl (p # ps) d x sv u =
     (if dbid (pl p) = d \<and> local_xid (pl p) = x \<and> serverid (pl p) = sv \<and> userid (pl p) = u
      then True else has_duplicate pl ps d x sv u)"

text \<open>
  \<open>insert_fdw_xact\<close>. An error leaves through \<open>ereport(ERROR)\<close> before anything is
  written, so the state comes back as it was. The result is the slot taken.
\<close>

definition insert_fdw_xact ::
  "int \<Rightarrow> shmem \<Rightarrow> Oid \<Rightarrow> TransactionId \<Rightarrow> Oid \<Rightarrow> Oid \<Rightarrow> Oid \<Rightarrow> string \<Rightarrow>
   (error + FdwXact) \<times> shmem" where
  "insert_fdw_xact max_prepared_foreign_xacts s d x sv u um ident =
     (if has_duplicate (pool s) (fdw_xacts s) d x sv u
      then (Inl (ErrDuplicateEntry x sv u), s)
      else case freeFdwXacts s of
        None \<Rightarrow> (Inl (ErrMaxForeignTransactionsReached max_prepared_foreign_xacts), s)
      | Some fxact \<Rightarrow>
          (let s1 = s\<lparr>freeFdwXacts := fxact_free_next (pool s fxact)\<rparr>;
               s2 = s1\<lparr>fdw_xacts := fdw_xacts s1 @ [fxact]\<rparr>;
               e = (pool s2 fxact)
                     \<lparr>held_by := InvalidBackendId, dbid := d, local_xid := x, serverid := sv,
                      userid := u, umid := um, insert_start_lsn := InvalidXLogRecPtr,
                      insert_end_lsn := InvalidXLogRecPtr, valid := False, ondisk := False,
                      inredo := False, fdw_xact_id := ident\<rparr>
           in (Inr fxact, s2\<lparr>pool := (pool s2)(fxact := e)\<rparr>)))"

text \<open>The search loop of \<open>remove_fdw_xact\<close>: the first index holding the pointer, or
  the array length when no index does.\<close>

fun find_slot :: "FdwXact list \<Rightarrow> FdwXact \<Rightarrow> nat" where
  "find_slot [] fxact = 0"
| "find_slot (p # ps) fxact = (if p = fxact then 0 else Suc (find_slot ps fxact))"

text \<open>
  \<open>remove_fdw_xact\<close>: the last live element moves into the hole, the slot goes back
  to the head of the free list, and outside recovery a REMOVE record is written and
  flushed.
\<close>

definition remove_fdw_xact :: "shmem \<Rightarrow> FdwXact \<Rightarrow> (error + unit) \<times> shmem" where
  "remove_fdw_xact s fxact =
     (let cnt = find_slot (fdw_xacts s) fxact in
      if cnt \<ge> length (fdw_xacts s)
      then (Inl (ErrEntryNotFound (local_xid (pool s fxact)) (serverid (pool s fxact))
                   (userid (pool s fxact))), s)
      else
        (let s1 = s\<lparr>fdw_xacts := butlast ((fdw_xacts s)[cnt := last (fdw_xacts s)])\<rparr>;
             e = (pool s1 fxact)
                   \<lparr>fxact_free_next := freeFdwXacts s1, status := FDW_XACT_INITIAL,
                    held_by := InvalidBackendId, fxact_next := None\<rparr>;
             s2 = s1\<lparr>pool := (pool s1)(fxact := e), freeFdwXacts := Some fxact\<rparr>
         in if \<not> RecoveryInProgress s2
            then (let (start_lsn, recptr, s3) =
                        XLogInsertAndFlush s2
                          (XLOG_FDW_XACT_REMOVE (dbid e) (local_xid e) (serverid e) (userid e))
                  in (Inr (), s3))
            else (Inr (), s2)))"

text \<open>
  \<open>get_fdw_xacts\<close>: an invalid (zero) argument matches every entry. The result is
  the list of matching pointers in array order.
\<close>

fun get_fdw_xacts_loop ::
  "(FdwXact \<Rightarrow> FdwXactData) \<Rightarrow> FdwXact list \<Rightarrow> Oid \<Rightarrow> TransactionId \<Rightarrow> Oid \<Rightarrow> Oid \<Rightarrow>
   FdwXact list" where
  "get_fdw_xacts_loop pl [] d x sv u = []"
| "get_fdw_xacts_loop pl (p # ps) d x sv u =
     (let m0 = True;
          m1 = (if x \<noteq> InvalidTransactionId \<and> x \<noteq> local_xid (pl p) then False else m0);
          m2 = (if OidIsValid d \<and> dbid (pl p) \<noteq> d then False else m1);
          m3 = (if OidIsValid sv \<and> sv \<noteq> serverid (pl p) then False else m2);
          matches = (if OidIsValid u \<and> userid (pl p) \<noteq> u then False else m3)
      in if matches then p # get_fdw_xacts_loop pl ps d x sv u
         else get_fdw_xacts_loop pl ps d x sv u)"

definition get_fdw_xacts :: "shmem \<Rightarrow> Oid \<Rightarrow> TransactionId \<Rightarrow> Oid \<Rightarrow> Oid \<Rightarrow> FdwXact list" where
  "get_fdw_xacts s d x sv u = get_fdw_xacts_loop (pool s) (fdw_xacts s) d x sv u"

definition get_one_fdw_xact ::
  "shmem \<Rightarrow> Oid \<Rightarrow> TransactionId \<Rightarrow> Oid \<Rightarrow> Oid \<Rightarrow> FdwXact option" where
  "get_one_fdw_xact s d x sv u =
     (case get_fdw_xacts s d x sv u of [] \<Rightarrow> None | p # _ \<Rightarrow> Some p)"

text \<open>\<open>get_all_fdw_xacts\<close>: a private copy of every entry, in array order.\<close>

definition get_all_fdw_xacts :: "shmem \<Rightarrow> FdwXactData list" where
  "get_all_fdw_xacts s =
     map (pool s) (get_fdw_xacts s InvalidOid InvalidTransactionId InvalidOid InvalidOid)"


section \<open>The backend side: participants and pre-commit\<close>

text \<open>
  The callback table of a foreign-data wrapper, as far as the manager uses it. A
  missing callback is \<open>None\<close>. \<open>GetPrepareId\<close> returns the identifier buffer and the
  length it stores through its out-parameter, or \<open>None\<close> for a null pointer.
\<close>

record FdwRoutine =
  IsTwoPhaseCommitEnabled :: "(Oid \<Rightarrow> bool) option"
  PrepareForeignTransaction :: "(FdwXactState \<Rightarrow> bool) option"
  CommitForeignTransaction :: "(FdwXactState \<Rightarrow> bool) option"
  RollbackForeignTransaction :: "(FdwXactState \<Rightarrow> bool) option"
  GetPrepareId :: "(TransactionId \<Rightarrow> Oid \<Rightarrow> Oid \<Rightarrow> (string \<times> int) option) option"
  ResolveForeignTransaction :: "FdwXactState \<Rightarrow> bool \<Rightarrow> bool"

text \<open>\<open>FdwXactParticipant\<close>; \<open>server->serverid\<close>, \<open>usermapping->userid\<close> and
  \<open>usermapping->umid\<close> are flattened into the struct.\<close>

record FdwXactParticipant =
  fdw_xact :: "FdwXact option"
  fdw_xact_id_part :: "string option"
  server_serverid :: Oid
  usermapping_userid :: Oid
  usermapping_umid :: Oid
  modified :: bool
  twophase_commit_enabled :: bool
  prepare_foreign_xact :: "FdwXactState \<Rightarrow> bool"
  commit_foreign_xact :: "FdwXactState \<Rightarrow> bool"
  rollback_foreign_xact :: "FdwXactState \<Rightarrow> bool"
  get_prepareid :: "(TransactionId \<Rightarrow> Oid \<Rightarrow> Oid \<Rightarrow> (string \<times> int) option) option"
  is_twophase_commit_enabled :: "Oid \<Rightarrow> bool"

datatype xact_flag = XACT_FLAGS_FDWNOPREPARE | XACT_FLAGS_WROTENONTEMPREL

text \<open>
  The settings and the per-backend variables the functions read and write.
  \<open>MyXactFlags\<close> is the bit set of xact.h, kept as the set of the two flags used here.
  \<open>NAMEDATALEN\<close> is the build constant of pg_config_manual.h; \<open>random_value\<close> is what
  \<open>random()\<close> returns while an identifier is generated for a server and user.
\<close>

record backend =
  max_prepared_foreign_xacts :: int
  max_foreign_xact_resolvers :: int
  distributed_atomic_commit :: DistributedAtomicCommitLevel
  NAMEDATALEN :: int
  MyDatabaseId :: Oid
  MyBackendId :: BackendId
  TopTransactionId :: TransactionId
  MyXactFlags :: "xact_flag set"
  FdwXactAtomicCommitParticipants :: "FdwXactParticipant list"
  FdwXactAtomicCommitReady :: bool
  GetFdwRoutineByServerId :: "Oid \<Rightarrow> FdwRoutine"
  GetUserMapping_umid :: "Oid \<Rightarrow> Oid \<Rightarrow> Oid"
  random_value :: "Oid \<Rightarrow> Oid \<Rightarrow> int"

definition IsAtomicCommitEnabled :: "backend \<Rightarrow> bool" where
  "IsAtomicCommitEnabled b =
     (max_prepared_foreign_xacts b > 0 \<and> max_foreign_xact_resolvers b > 0)"

definition IsAtomicCommitRequested :: "backend \<Rightarrow> bool" where
  "IsAtomicCommitRequested b =
     (IsAtomicCommitEnabled b \<and>
      distributed_atomic_commit b \<noteq> DISTRIBUTED_ATOMIC_COMMIT_DISABLED)"

text \<open>The search of \<open>register_fdw_xact\<close> for a participant already registered.\<close>

fun merge_modified ::
  "FdwXactParticipant list \<Rightarrow> Oid \<Rightarrow> Oid \<Rightarrow> bool \<Rightarrow> FdwXactParticipant list option" where
  "merge_modified [] sv u m = None"
| "merge_modified (fp # fps) sv u m =
     (if server_serverid fp = sv \<and> usermapping_userid fp = u
      then Some (fp\<lparr>modified := (modified fp \<or> m)\<rparr> # fps)
      else map_option ((#) fp) (merge_modified fps sv u m))"

definition register_fdw_xact :: "backend \<Rightarrow> Oid \<Rightarrow> Oid \<Rightarrow> bool \<Rightarrow> (error + unit) \<times> backend" where
  "register_fdw_xact b sv u m =
     (let routine = GetFdwRoutineByServerId b sv in
      case IsTwoPhaseCommitEnabled routine of
        None \<Rightarrow> (Inr (), b\<lparr>MyXactFlags := insert XACT_FLAGS_FDWNOPREPARE (MyXactFlags b)\<rparr>)
      | Some is2pc \<Rightarrow>
         (case merge_modified (FdwXactAtomicCommitParticipants b) sv u m of
            Some ps \<Rightarrow> (Inr (), b\<lparr>FdwXactAtomicCommitParticipants := ps\<rparr>)
          | None \<Rightarrow>
             (case PrepareForeignTransaction routine of
                None \<Rightarrow> (Inl ErrNoPrepareFunction, b)
              | Some prep \<Rightarrow>
                 (case CommitForeignTransaction routine of
                    None \<Rightarrow> (Inl ErrNoCommitFunction, b)
                  | Some com \<Rightarrow>
                     (case RollbackForeignTransaction routine of
                        None \<Rightarrow> (Inl ErrNoRollbackFunction, b)
                      | Some rb \<Rightarrow>
                         (let fdw_part =
                                \<lparr>fdw_xact = None, fdw_xact_id_part = None,
                                 server_serverid = sv, usermapping_userid = u,
                                 usermapping_umid = GetUserMapping_umid b u sv,
                                 modified = m, twophase_commit_enabled = True,
                                 prepare_foreign_xact = prep, commit_foreign_xact = com,
                                 rollback_foreign_xact = rb,
                                 get_prepareid = GetPrepareId routine,
                                 is_twophase_commit_enabled = is2pc\<rparr>
                          in (Inr (),
                              b\<lparr>FdwXactAtomicCommitParticipants :=
                                   FdwXactAtomicCommitParticipants b @ [fdw_part]\<rparr>)))))))"

text \<open>
  The loop of \<open>FdwXactAtomicCommitRequired\<close>: it probes every participant, raises
  \<open>twophase_commit_enabled\<close> on a capable one, flags the transaction when a modified
  one is not capable, and counts the modified ones.
\<close>

fun probe_participants ::
  "FdwXactParticipant list \<Rightarrow> xact_flag set \<Rightarrow> int \<Rightarrow>
   FdwXactParticipant list \<times> xact_flag set \<times> int" where
  "probe_participants [] flags nserverswritten = ([], flags, nserverswritten)"
| "probe_participants (fdw_part # rest) flags nserverswritten =
     (let capable = is_twophase_commit_enabled fdw_part (server_serverid fdw_part);
          fdw_part1 = (if capable then fdw_part\<lparr>twophase_commit_enabled := True\<rparr>
                       else fdw_part);
          flags1 = (if \<not> capable \<and> modified fdw_part
                    then insert XACT_FLAGS_FDWNOPREPARE flags else flags);
          n1 = (if modified fdw_part then nserverswritten + 1 else nserverswritten);
          (rest1, flags2, n2) = probe_participants rest flags1 n1
      in (fdw_part1 # rest1, flags2, n2))"

definition FdwXactAtomicCommitRequired :: "backend \<Rightarrow> bool \<times> backend" where
  "FdwXactAtomicCommitRequired b =
     (if \<not> IsAtomicCommitRequested b then (False, b)
      else
        (let (ps, flags, n) =
               probe_participants (FdwXactAtomicCommitParticipants b) (MyXactFlags b) 0;
             b1 = b\<lparr>FdwXactAtomicCommitParticipants := ps, MyXactFlags := flags\<rparr>;
             nserverswritten =
               (if XACT_FLAGS_WROTENONTEMPREL \<in> MyXactFlags b1 then n + 1 else n)
         in if nserverswritten \<le> 1 then (False, b1)
            else (True, b1\<lparr>FdwXactAtomicCommitReady := True\<rparr>)))"

text \<open>\<open>FdwXactCommitForeignTransaction\<close>: the one-phase commit of a participant.\<close>

definition FdwXactCommitForeignTransaction ::
  "shmem \<Rightarrow> FdwXactParticipant \<Rightarrow> (error + unit) \<times> shmem" where
  "FdwXactCommitForeignTransaction s fdw_part =
     (let state = \<lparr>st_serverid = server_serverid fdw_part,
                   st_userid = usermapping_userid fdw_part,
                   st_umid = usermapping_umid fdw_part, st_fdwxact_id = None\<rparr>;
          ok = commit_foreign_xact fdw_part state;
          s1 = s\<lparr>history := history s @ [EvCommit state ok]\<rparr>
      in if \<not> ok then (Inl (ErrCouldNotCommit (server_serverid fdw_part)), s1)
         else (Inr (), s1))"


subsection \<open>Identifiers\<close>

text \<open>
  \<open>generate_fdw_xact_identifier\<close>: \<open>fx_<random>_<xid>_<serverid>_<userid>\<close>, cut by
  \<open>snprintf\<close> to the buffer of \<open>FDW_XACT_ID_MAX_LEN\<close> bytes including the terminator.
  The two Oids go through \<open>%d\<close>, so they print as signed numbers.
\<close>

definition generate_fdw_xact_identifier :: "int \<Rightarrow> TransactionId \<Rightarrow> Oid \<Rightarrow> Oid \<Rightarrow> string" where
  "generate_fdw_xact_identifier rnd xid sv u =
     take (FDW_XACT_ID_MAX_LEN - 1)
       (''fx'' @ ''_'' @ dec_signed \<bar>rnd\<bar> @ ''_'' @ dec_digits (unat xid) @ ''_'' @
        dec_signed (sint sv) @ ''_'' @ dec_signed (sint u))"

text \<open>
  The first block of the loop body of \<open>FdwXactPrepareForeignTransactions\<close>: ask the
  FDW for an identifier when it has \<open>get_prepareid\<close>, write the terminator at the
  length it reported, check that length, and generate an identifier otherwise.
  The callback's result is the string in its buffer and the length it reports. The
  store \<open>id[fdwxact_id_len] = 0\<close> comes before the check: at a negative length it
  lies before the buffer, at a length inside the string it cuts the string there,
  and at a greater length it lies behind the terminator and leaves the string as it
  is (the buffer is taken to be long enough for that store).
\<close>

definition prepare_identifier :: "backend \<Rightarrow> FdwXactParticipant \<Rightarrow> error + string" where
  "prepare_identifier b fdw_part =
     (case get_prepareid fdw_part of
        Some get_id \<Rightarrow>
          (case get_id (TopTransactionId b) (server_serverid fdw_part)
                  (usermapping_userid fdw_part) of
             None \<Rightarrow> Inl ErrIdentifierNotProvided
           | Some (buf, fdwxact_id_len) \<Rightarrow>
               if fdwxact_id_len < 0 then Inl (UndefinedStoreBeforeIdentifier fdwxact_id_len)
               else
                 (let ident = take (nat fdwxact_id_len) buf in
                  if fdwxact_id_len > NAMEDATALEN b then Inl (ErrIdentifierTooLong ident)
                  else Inr ident))
      | None \<Rightarrow>
          Inr (generate_fdw_xact_identifier
                 (random_value b (server_serverid fdw_part) (usermapping_userid fdw_part))
                 (TopTransactionId b) (server_serverid fdw_part)
                 (usermapping_userid fdw_part)))"

subsection \<open>Persist, then prepare\<close>

text \<open>
  \<open>FdwXactInsertFdwXactEntry\<close>: take a slot under the lock, write the INSERT record
  and flush it, remember its positions, and only then mark the entry valid.
\<close>

definition FdwXactInsertFdwXactEntry ::
  "backend \<Rightarrow> shmem \<Rightarrow> TransactionId \<Rightarrow> FdwXactParticipant \<Rightarrow>
   (error + FdwXact) \<times> FdwXactParticipant \<times> shmem" where
  "FdwXactInsertFdwXactEntry b s xid fdw_part =
     (case fdw_xact_id_part fdw_part of
        None \<Rightarrow> (Inl ErrNullDereference, fdw_part, s)
      | Some ident \<Rightarrow>
         (case insert_fdw_xact (max_prepared_foreign_xacts b) s (MyDatabaseId b) xid
                 (server_serverid fdw_part) (usermapping_userid fdw_part)
                 (usermapping_umid fdw_part) ident of
            (Inl e, s0) \<Rightarrow> (Inl e, fdw_part, s0)
          | (Inr fxact, s0) \<Rightarrow>
             (let s1 = s0\<lparr>pool := (pool s0)
                          (fxact := (pool s0 fxact)\<lparr>status := FDW_XACT_PREPARING,
                                                    held_by := MyBackendId b\<rparr>)\<rparr>;
                  fdw_part1 = fdw_part\<lparr>fdw_xact := Some fxact\<rparr>;
                  (start_lsn, end_lsn, s2) =
                     XLogInsertAndFlush s1
                       (XLOG_FDW_XACT_INSERT (MyDatabaseId b) xid (server_serverid fdw_part)
                          (usermapping_userid fdw_part) (usermapping_umid fdw_part) ident);
                  s3 = s2\<lparr>pool := (pool s2)
                          (fxact := (pool s2 fxact)\<lparr>insert_end_lsn := end_lsn,
                                                    insert_start_lsn := start_lsn\<rparr>)\<rparr>;
                  s4 = s3\<lparr>pool := (pool s3) (fxact := (pool s3 fxact)\<lparr>valid := True\<rparr>)\<rparr>
              in (Inr fxact, fdw_part1, s4))))"

text \<open>
  The loop of \<open>FdwXactPrepareForeignTransactions\<close> over the participants. An error
  leaves the loop at once; the participants and the shared state come back as they
  are at that moment.
\<close>

fun prepare_loop ::
  "backend \<Rightarrow> shmem \<Rightarrow> FdwXactParticipant list \<Rightarrow>
   (error + unit) \<times> FdwXactParticipant list \<times> shmem" where
  "prepare_loop b s [] = (Inr (), [], s)"
| "prepare_loop b s (fdw_part # rest) =
     (case prepare_identifier b fdw_part of
        Inl e \<Rightarrow> (Inl e, fdw_part # rest, s)
      | Inr ident \<Rightarrow>
         (case FdwXactInsertFdwXactEntry b s (TopTransactionId b)
                 (fdw_part\<lparr>fdw_xact_id_part := Some ident\<rparr>) of
            (Inl e, fdw_part1, s1) \<Rightarrow> (Inl e, fdw_part1 # rest, s1)
          | (Inr fdwxact, fdw_part1, s1) \<Rightarrow>
             (let state = \<lparr>st_serverid = server_serverid fdw_part1,
                           st_userid = usermapping_userid fdw_part1,
                           st_umid = usermapping_umid fdw_part1,
                           st_fdwxact_id = Some (fdw_xact_id (pool s1 fdwxact))\<rparr>;
                  ok = prepare_foreign_xact fdw_part1 state;
                  s2 = s1\<lparr>history := history s1 @ [EvPrepare state ok]\<rparr>
              in if \<not> ok
                 then (Inl (ErrCouldNotPrepare (server_serverid fdw_part1)),
                       fdw_part1 # rest, s2)
                 else
                   (case fdw_xact fdw_part1 of
                      None \<Rightarrow> (Inl ErrNullDereference, fdw_part1 # rest, s2)
                    | Some own \<Rightarrow>
                       (let s3 = s2\<lparr>pool := (pool s2)
                                    (own := (pool s2 own)\<lparr>status := FDW_XACT_PREPARED\<rparr>)\<rparr>;
                            fdw_part2 = fdw_part1\<lparr>fdw_xact := Some fdwxact\<rparr>;
                            (r, rest1, s4) = prepare_loop b s3 rest
                        in (r, fdw_part2 # rest1, s4))))))"

definition FdwXactPrepareForeignTransactions ::
  "backend \<Rightarrow> shmem \<Rightarrow> (error + unit) \<times> backend \<times> shmem" where
  "FdwXactPrepareForeignTransactions b s =
     (if FdwXactAtomicCommitParticipants b = [] then (Inr (), b, s)
      else if max_prepared_foreign_xacts b = 0 then (Inl ErrPreparedDisabledNoSlots, b, s)
      else if max_foreign_xact_resolvers b = 0 then (Inl ErrPreparedDisabledNoResolvers, b, s)
      else
        (let (r, ps, s1) = prepare_loop b s (FdwXactAtomicCommitParticipants b)
         in (r, b\<lparr>FdwXactAtomicCommitParticipants := ps\<rparr>, s1)))"

subsection \<open>Pre-commit\<close>

text \<open>
  The first loop of \<open>PreCommit_FdwXacts\<close>: a participant that may be committed in
  one phase is committed and deleted from the list, the others stay.
\<close>

fun commit_loop ::
  "bool \<Rightarrow> DistributedAtomicCommitLevel \<Rightarrow> shmem \<Rightarrow> FdwXactParticipant list \<Rightarrow>
   (error + unit) \<times> FdwXactParticipant list \<times> shmem" where
  "commit_loop need_atomic_commit level s [] = (Inr (), [], s)"
| "commit_loop need_atomic_commit level s (fdw_part # rest) =
     (let can_commit =
            (if \<not> need_atomic_commit \<or> \<not> modified fdw_part then True
             else if level = DISTRIBUTED_ATOMIC_COMMIT_PREFER \<and>
                     \<not> twophase_commit_enabled fdw_part then True
             else False)
      in if can_commit
         then (case FdwXactCommitForeignTransaction s fdw_part of
                 (Inl e, s1) \<Rightarrow> (Inl e, fdw_part # rest, s1)
               | (Inr _, s1) \<Rightarrow> commit_loop need_atomic_commit level s1 rest)
         else (let (r, rest1, s1) = commit_loop need_atomic_commit level s rest
               in (r, fdw_part # rest1, s1)))"

text \<open>
  \<open>PreCommit_FdwXacts\<close>. After the one-participant shortcut the source frees the
  list without resetting the variable; the model leaves the list as it is.
\<close>

definition PreCommit_FdwXacts :: "backend \<Rightarrow> shmem \<Rightarrow> (error + unit) \<times> backend \<times> shmem" where
  "PreCommit_FdwXacts b s =
     (if FdwXactAtomicCommitParticipants b = [] then (Inr (), b, s)
      else
        (let (need_atomic_commit, b1) = FdwXactAtomicCommitRequired b in
         if need_atomic_commit \<and>
            distributed_atomic_commit b1 = DISTRIBUTED_ATOMIC_COMMIT_REQUIRED \<and>
            XACT_FLAGS_FDWNOPREPARE \<in> MyXactFlags b1
         then (Inl ErrCannotCommitWithoutAtomicCommit, b1, s)
         else
           (case commit_loop need_atomic_commit (distributed_atomic_commit b1) s
                   (FdwXactAtomicCommitParticipants b1) of
              (Inl e, ps, s1) \<Rightarrow> (Inl e, b1\<lparr>FdwXactAtomicCommitParticipants := ps\<rparr>, s1)
            | (Inr _, ps, s1) \<Rightarrow>
               (let b2 = b1\<lparr>FdwXactAtomicCommitParticipants := ps\<rparr> in
                if length ps = 1 \<and> XACT_FLAGS_WROTENONTEMPREL \<notin> MyXactFlags b2
                then (case FdwXactCommitForeignTransaction s1 (hd ps) of
                        (r, s2) \<Rightarrow> (r, b2, s2))
                else FdwXactPrepareForeignTransactions b2 s1))))"


section \<open>Resolution\<close>

text \<open>
  What the resolver reads from outside the manager: the commit log and the process
  array (\<open>TransactionIdDidCommit\<close>, \<open>TransactionIdDidAbort\<close>,
  \<open>TransactionIdIsInProgress\<close>), the local two-phase state (\<open>TwoPhaseExists\<close>), and the
  callback table found through \<open>GetForeignServer\<close>, \<open>GetForeignDataWrapper\<close> and
  \<open>GetFdwRoutine\<close> for a server.
\<close>

record resolver_env =
  TransactionIdDidCommit :: "TransactionId \<Rightarrow> bool"
  TransactionIdDidAbort :: "TransactionId \<Rightarrow> bool"
  TransactionIdIsInProgress :: "TransactionId \<Rightarrow> bool"
  TwoPhaseExists :: "TransactionId \<Rightarrow> bool"
  GetFdwRoutine :: "Oid \<Rightarrow> FdwRoutine"

text \<open>Error levels of elog.h in rising order; \<open>ereport\<close> returns below \<open>ERROR\<close>.\<close>

datatype elevel = DEBUG2 | LOG | WARNING | ERROR

fun elevel_throws :: "elevel \<Rightarrow> bool" where
  "elevel_throws ERROR = True"
| "elevel_throws _ = False"

text \<open>
  The first half of \<open>FdwXactResolveForeignTransaction\<close>: decide between commit and
  abort. The result is \<open>is_commit\<close>.
\<close>

definition resolve_decide ::
  "resolver_env \<Rightarrow> shmem \<Rightarrow> FdwXact \<Rightarrow> (error + bool) \<times> shmem" where
  "resolve_decide env s fdwxact =
     (let e = pool s fdwxact in
      if status e = FDW_XACT_COMMITTING_PREPARED then (Inr True, s)
      else if status e = FDW_XACT_ABORTING_PREPARED then (Inr False, s)
      else if TransactionIdDidCommit env (local_xid e)
      then (Inr True,
            s\<lparr>pool := (pool s)(fdwxact := e\<lparr>status := FDW_XACT_COMMITTING_PREPARED\<rparr>)\<rparr>)
      else if TransactionIdDidAbort env (local_xid e)
      then (Inr False,
            s\<lparr>pool := (pool s)(fdwxact := e\<lparr>status := FDW_XACT_ABORTING_PREPARED\<rparr>)\<rparr>)
      else if \<not> TransactionIdIsInProgress env (local_xid e) then (Inr False, s)
      else (Inl (ErrLocalTransactionInProgress (local_xid e) (serverid e)), s))"

text \<open>
  \<open>FdwXactResolveForeignTransaction\<close>: decide, call the FDW, report a failure at
  the level the caller chose, then unlink the state file and free the entry.
\<close>

definition FdwXactResolveForeignTransaction ::
  "resolver_env \<Rightarrow> shmem \<Rightarrow> FdwXactState \<Rightarrow> FdwXact \<Rightarrow> elevel \<Rightarrow>
   (error + bool) \<times> shmem" where
  "FdwXactResolveForeignTransaction env s state fdwxact lev =
     (case resolve_decide env s fdwxact of
        (Inl e, s1) \<Rightarrow> (Inl e, s1)
      | (Inr is_commit, s1) \<Rightarrow>
         (let fdw_routine = GetFdwRoutine env (serverid (pool s1 fdwxact));
              ret = ResolveForeignTransaction fdw_routine state is_commit;
              s2 = s1\<lparr>history := history s1 @ [EvResolve state is_commit ret]\<rparr>
          in if \<not> ret \<and> elevel_throws lev
             then (Inl (ErrCouldNotResolve is_commit (serverid (pool s2 fdwxact))), s2)
             else
               (let s3 = (if ondisk (pool s2 fdwxact)
                          then RemoveFdwXactFile s2 (dbid (pool s2 fdwxact))
                                 (local_xid (pool s2 fdwxact)) (serverid (pool s2 fdwxact))
                                 (userid (pool s2 fdwxact))
                          else s2)
                in case remove_fdw_xact s3 fdwxact of
                     (Inl e, s4) \<Rightarrow> (Inl e, s4)
                   | (Inr _, s4) \<Rightarrow> (Inr ret, s4))))"

text \<open>The argument bundle the resolver builds from an entry before it resolves it.\<close>

definition state_of_entry :: "FdwXactData \<Rightarrow> FdwXactState" where
  "state_of_entry e =
     \<lparr>st_serverid = serverid e, st_userid = userid e, st_umid = umid e,
      st_fdwxact_id = Some (fdw_xact_id e)\<rparr>"

text \<open>
  The loop shared by \<open>FdwXactResolveDistributedTransaction\<close> and
  \<open>FdwXactResolveAllDanglingTransactions\<close>: resolve the collected entries one by one
  at level \<open>ERROR\<close>; the first error ends the loop.
\<close>

fun resolve_loop :: "resolver_env \<Rightarrow> shmem \<Rightarrow> FdwXact list \<Rightarrow> (error + unit) \<times> shmem" where
  "resolve_loop env s [] = (Inr (), s)"
| "resolve_loop env s (fdwxact # rest) =
     (case FdwXactResolveForeignTransaction env s (state_of_entry (pool s fdwxact))
             fdwxact ERROR of
        (Inl e, s1) \<Rightarrow> (Inl e, s1)
      | (Inr _, s1) \<Rightarrow> resolve_loop env s1 rest)"

text \<open>
  \<open>FdwXactResolveDistributedTransaction\<close> once a waiter with transaction id
  \<open>wait_xid\<close> has been taken from the queue: the participants are the entries of
  that transaction in the database. The queues of waiting backends are not part of
  the model.
\<close>

definition resolve_waiter ::
  "resolver_env \<Rightarrow> shmem \<Rightarrow> Oid \<Rightarrow> TransactionId \<Rightarrow> (error + unit) \<times> shmem" where
  "resolve_waiter env s d wait_xid =
     resolve_loop env s (get_fdw_xacts s d wait_xid InvalidOid InvalidOid)"

definition FdwXactResolveAllDanglingTransactions ::
  "resolver_env \<Rightarrow> shmem \<Rightarrow> Oid \<Rightarrow> (error + unit) \<times> shmem" where
  "FdwXactResolveAllDanglingTransactions env s d =
     resolve_loop env s
       (filter (\<lambda>fxact. dbid (pool s fxact) = d \<and>
                        held_by (pool s fxact) = InvalidBackendId \<and>
                        \<not> TwoPhaseExists env (local_xid (pool s fxact)))
          (fdw_xacts s))"

section \<open>WAL replay\<close>

definition FdwXactRedoAdd ::
  "int \<Rightarrow> shmem \<Rightarrow> Oid \<Rightarrow> TransactionId \<Rightarrow> Oid \<Rightarrow> Oid \<Rightarrow> Oid \<Rightarrow> string \<Rightarrow>
   XLogRecPtr \<Rightarrow> XLogRecPtr \<Rightarrow> (error + unit) \<times> shmem" where
  "FdwXactRedoAdd max_prepared s d x sv u um ident start_lsn end_lsn =
     (case insert_fdw_xact max_prepared s d x sv u um ident of
        (Inl e, s1) \<Rightarrow> (Inl e, s1)
      | (Inr fxact, s1) \<Rightarrow>
         (Inr (),
          s1\<lparr>pool := (pool s1)
               (fxact := (pool s1 fxact)
                  \<lparr>status := FDW_XACT_PREPARING, insert_start_lsn := start_lsn,
                   insert_end_lsn := end_lsn, inredo := True, valid := False,
                   ondisk := XLogRecPtrIsInvalid start_lsn\<rparr>)\<rparr>))"

definition FdwXactRedoRemove ::
  "shmem \<Rightarrow> Oid \<Rightarrow> TransactionId \<Rightarrow> Oid \<Rightarrow> Oid \<Rightarrow> (error + unit) \<times> shmem" where
  "FdwXactRedoRemove s d x sv u =
     (case get_one_fdw_xact s d x sv u of
        None \<Rightarrow> (Inr (), s)
      | Some fdwxact \<Rightarrow>
         (let s1 = (if ondisk (pool s fdwxact)
                    then RemoveFdwXactFile s (dbid (pool s fdwxact))
                           (local_xid (pool s fdwxact)) (serverid (pool s fdwxact))
                           (userid (pool s fdwxact))
                    else s)
          in remove_fdw_xact s1 fdwxact))"

text \<open>\<open>fdw_xact_redo\<close> for a record read at \<open>ReadRecPtr\<close> and ending at \<open>EndRecPtr\<close>.\<close>

fun fdw_xact_redo ::
  "int \<Rightarrow> shmem \<Rightarrow> XLogRecPtr \<times> XLogRecPtr \<times> xl_record \<Rightarrow> (error + unit) \<times> shmem" where
  "fdw_xact_redo max_prepared s (ReadRecPtr, EndRecPtr, XLOG_FDW_XACT_INSERT d x sv u um ident) =
     FdwXactRedoAdd max_prepared s d x sv u um ident ReadRecPtr EndRecPtr"
| "fdw_xact_redo max_prepared s (ReadRecPtr, EndRecPtr, XLOG_FDW_XACT_REMOVE d x sv u) =
     FdwXactRedoRemove s d x sv u"

text \<open>Replaying a sequence of records; an error stops the replay.\<close>

fun redo_all ::
  "int \<Rightarrow> shmem \<Rightarrow> (XLogRecPtr \<times> XLogRecPtr \<times> xl_record) list \<Rightarrow> (error + unit) \<times> shmem" where
  "redo_all max_prepared s [] = (Inr (), s)"
| "redo_all max_prepared s (r # rs) =
     (case fdw_xact_redo max_prepared s r of
        (Inl e, s1) \<Rightarrow> (Inl e, s1)
      | (Inr _, s1) \<Rightarrow> redo_all max_prepared s1 rs)"

section \<open>Management functions\<close>

text \<open>A row of \<open>pg_prepared_fdw_xacts\<close>: dbid, transaction, serverid, userid, status,
  identifier.\<close>

type_synonym fdw_xact_row = "Oid \<times> TransactionId \<times> Oid \<times> Oid \<times> string \<times> string"

fun xact_status_text :: "FdwXactStatus \<Rightarrow> string" where
  "xact_status_text FDW_XACT_PREPARING = ''prepared''"
| "xact_status_text FDW_XACT_COMMITTING_PREPARED = ''committing''"
| "xact_status_text FDW_XACT_ABORTING_PREPARED = ''aborting''"
| "xact_status_text _ = ''unknown''"

definition row_of :: "FdwXactData \<Rightarrow> fdw_xact_row" where
  "row_of e =
     (dbid e, local_xid e, serverid e, userid e, xact_status_text (status e), fdw_xact_id e)"

text \<open>The per-call loop of \<open>pg_prepared_fdw_xacts\<close> over the copied array: an entry
  that is not valid is skipped, every other one yields a row.\<close>

fun prepared_rows :: "FdwXactData list \<Rightarrow> fdw_xact_row list" where
  "prepared_rows [] = []"
| "prepared_rows (e # es) =
     (if \<not> valid e then prepared_rows es else row_of e # prepared_rows es)"

definition pg_prepared_fdw_xacts :: "shmem \<Rightarrow> fdw_xact_row list" where
  "pg_prepared_fdw_xacts s = prepared_rows (get_all_fdw_xacts s)"

definition pg_resolve_fdw_xact ::
  "bool \<Rightarrow> resolver_env \<Rightarrow> backend \<Rightarrow> shmem \<Rightarrow> TransactionId \<Rightarrow> Oid \<Rightarrow> Oid \<Rightarrow>
   (error + bool) \<times> shmem" where
  "pg_resolve_fdw_xact superuser env b s xid sv u =
     (if \<not> superuser then (Inl ErrMustBeSuperuser, s)
      else case get_one_fdw_xact s (MyDatabaseId b) xid sv u of
        None \<Rightarrow> (Inr False, s)
      | Some fdwxact \<Rightarrow>
          FdwXactResolveForeignTransaction env s
            \<lparr>st_serverid = sv, st_userid = u, st_umid = GetUserMapping_umid b u sv,
             st_fdwxact_id = None\<rparr>
            fdwxact LOG)"

definition pg_remove_fdw_xact ::
  "bool \<Rightarrow> backend \<Rightarrow> shmem \<Rightarrow> TransactionId \<Rightarrow> Oid \<Rightarrow> Oid \<Rightarrow> (error + unit) \<times> shmem" where
  "pg_remove_fdw_xact superuser b s xid sv u =
     (if \<not> superuser then (Inl ErrMustBeSuperuser, s)
      else case get_one_fdw_xact s (MyDatabaseId b) xid sv u of
        None \<Rightarrow> (Inl ErrNoSuchEntry, s)
      | Some fdwxact \<Rightarrow> remove_fdw_xact s fdwxact)"


section \<open>Checkpoint and transaction end\<close>

text \<open>
  \<open>XlogReadFdwXactData\<close>: read back the record that starts at a position; it must be
  there and must be an INSERT record.
\<close>

definition XlogReadFdwXactData :: "shmem \<Rightarrow> XLogRecPtr \<Rightarrow> error + xl_record" where
  "XlogReadFdwXactData s lsn =
     (case find (\<lambda>(start_lsn, end_lsn, r). start_lsn = lsn) (xlog s) of
        None \<Rightarrow> Inl (ErrCouldNotReadXlog lsn)
      | Some (start_lsn, end_lsn, XLOG_FDW_XACT_REMOVE d x sv u) \<Rightarrow>
          Inl (ErrUnexpectedXlogRecord lsn)
      | Some (start_lsn, end_lsn, XLOG_FDW_XACT_INSERT d x sv u um ident) \<Rightarrow>
          Inr (XLOG_FDW_XACT_INSERT d x sv u um ident))"

text \<open>
  The loop of \<open>CheckPointFdwXacts\<close>: an entry that is valid or replayed, not yet on
  disk and inserted at or before the redo horizon is copied from WAL into its state
  file. File contents and I/O failures are not modelled, only which files exist.
\<close>

fun checkpoint_loop :: "shmem \<Rightarrow> FdwXact list \<Rightarrow> XLogRecPtr \<Rightarrow> (error + unit) \<times> shmem" where
  "checkpoint_loop s [] redo_horizon = (Inr (), s)"
| "checkpoint_loop s (fxact # rest) redo_horizon =
     (let e = pool s fxact in
      if (valid e \<or> inredo e) \<and> \<not> ondisk e \<and> insert_end_lsn e \<le> redo_horizon
      then (case XlogReadFdwXactData s (insert_start_lsn e) of
              Inl err \<Rightarrow> (Inl err, s)
            | Inr buf \<Rightarrow>
               (let s1 = s\<lparr>files := insert (dbid e, local_xid e, serverid e, userid e) (files s)\<rparr>;
                    s2 = s1\<lparr>pool := (pool s1)
                            (fxact := e\<lparr>ondisk := True,
                                        insert_start_lsn := InvalidXLogRecPtr,
                                        insert_end_lsn := InvalidXLogRecPtr\<rparr>)\<rparr>
                in checkpoint_loop s2 rest redo_horizon))
      else checkpoint_loop s rest redo_horizon)"

definition CheckPointFdwXacts :: "int \<Rightarrow> shmem \<Rightarrow> XLogRecPtr \<Rightarrow> (error + unit) \<times> shmem" where
  "CheckPointFdwXacts max_prepared s redo_horizon =
     (if max_prepared \<le> 0 then (Inr (), s)
      else if numFdwXacts s \<le> 0 then (Inr (), s)
      else checkpoint_loop s (fdw_xacts s) redo_horizon)"

text \<open>
  \<open>ForgetAllFdwXactParticipants\<close>: let go of every entry this backend still holds
  and drop the participant list. The recomputation of the oldest unresolved xmin in
  the process array is not modelled.
\<close>

fun forget_loop :: "BackendId \<Rightarrow> shmem \<Rightarrow> FdwXactParticipant list \<Rightarrow> shmem" where
  "forget_loop me s [] = s"
| "forget_loop me s (fdw_part # rest) =
     (case fdw_xact fdw_part of
        None \<Rightarrow> forget_loop me s rest
      | Some fxact \<Rightarrow>
          (if held_by (pool s fxact) = me
           then forget_loop me
                  (s\<lparr>pool := (pool s)(fxact := (pool s fxact)\<lparr>held_by := InvalidBackendId\<rparr>)\<rparr>)
                  rest
           else forget_loop me s rest))"

definition ForgetAllFdwXactParticipants :: "backend \<Rightarrow> shmem \<Rightarrow> backend \<times> shmem" where
  "ForgetAllFdwXactParticipants b s =
     (if FdwXactAtomicCommitParticipants b = [] then (b, s)
      else (b\<lparr>FdwXactAtomicCommitParticipants := []\<rparr>,
            forget_loop (MyBackendId b) s (FdwXactAtomicCommitParticipants b)))"

section \<open>The operations on the shared table as one step function\<close>

text \<open>
  Every modelled entry point that writes the shared table, with its arguments. A
  step returns the shared state the operation leaves behind, also when it ends in
  an error.
\<close>

datatype fxm_op =
    OpInsert int Oid TransactionId Oid Oid Oid string
  | OpRemove FdwXact
  | OpPreCommit backend
  | OpPrepare backend
  | OpResolve resolver_env FdwXactState FdwXact elevel
  | OpResolveWaiter resolver_env Oid TransactionId
  | OpResolveDangling resolver_env Oid
  | OpRedo int "XLogRecPtr \<times> XLogRecPtr \<times> xl_record"
  | OpPgResolve bool resolver_env backend TransactionId Oid Oid
  | OpPgRemove bool backend TransactionId Oid Oid
  | OpCheckPoint int XLogRecPtr
  | OpForget backend

fun apply_op :: "fxm_op \<Rightarrow> shmem \<Rightarrow> shmem" where
  "apply_op (OpInsert m d x sv u um ident) s = snd (insert_fdw_xact m s d x sv u um ident)"
| "apply_op (OpRemove fxact) s = snd (remove_fdw_xact s fxact)"
| "apply_op (OpPreCommit b) s = snd (snd (PreCommit_FdwXacts b s))"
| "apply_op (OpPrepare b) s = snd (snd (FdwXactPrepareForeignTransactions b s))"
| "apply_op (OpResolve env state fxact lev) s =
     snd (FdwXactResolveForeignTransaction env s state fxact lev)"
| "apply_op (OpResolveWaiter env d x) s = snd (resolve_waiter env s d x)"
| "apply_op (OpResolveDangling env d) s = snd (FdwXactResolveAllDanglingTransactions env s d)"
| "apply_op (OpRedo m r) s = snd (fdw_xact_redo m s r)"
| "apply_op (OpPgResolve su env b x sv u) s = snd (pg_resolve_fdw_xact su env b s x sv u)"
| "apply_op (OpPgRemove su b x sv u) s = snd (pg_remove_fdw_xact su b s x sv u)"
| "apply_op (OpCheckPoint m h) s = snd (CheckPointFdwXacts m s h)"
| "apply_op (OpForget b) s = snd (ForgetAllFdwXactParticipants b s)"

fun run_ops :: "fxm_op list \<Rightarrow> shmem \<Rightarrow> shmem" where
  "run_ops [] s = s"
| "run_ops (op # ops) s = run_ops ops (apply_op op s)"

section \<open>Invariants of the table\<close>

text \<open>
  \<open>free_chain pl h ps\<close>: following \<open>fxact_free_next\<close> from the head \<open>h\<close> visits exactly the
  slots \<open>ps\<close> and then reaches \<open>NULL\<close>.
\<close>

primrec free_chain :: "(FdwXact \<Rightarrow> FdwXactData) \<Rightarrow> FdwXact option \<Rightarrow> FdwXact list \<Rightarrow> bool" where
  "free_chain pl h [] = (h = None)"
| "free_chain pl h (p # ps) = (h = Some p \<and> free_chain pl (fxact_free_next (pl p)) ps)"

text \<open>The slots found by walking the free list for at most \<open>n\<close> steps.\<close>

fun free_slots :: "nat \<Rightarrow> (FdwXact \<Rightarrow> FdwXactData) \<Rightarrow> FdwXact option \<Rightarrow> FdwXact list" where
  "free_slots 0 pl h = []"
| "free_slots (Suc n) pl None = []"
| "free_slots (Suc n) pl (Some p) = p # free_slots n pl (fxact_free_next (pl p))"

text \<open>
  The free list and the live array partition the pool of \<open>cap\<close> slots: no slot occurs
  twice, and together they are exactly the slots \<open>0 .. cap - 1\<close>. Walking one step
  further than \<open>cap\<close> makes a cyclic or overlong free list violate the condition.
\<close>

definition slot_partition :: "nat \<Rightarrow> shmem \<Rightarrow> bool" where
  "slot_partition cap s =
     (let fl = free_slots (Suc cap) (pool s) (freeFdwXacts s)
      in distinct (fdw_xacts s @ fl) \<and> set (fdw_xacts s) \<union> set fl = {..<cap})"

definition chain_partition :: "nat \<Rightarrow> shmem \<Rightarrow> FdwXact list \<Rightarrow> bool" where
  "chain_partition cap s ps =
     (free_chain (pool s) (freeFdwXacts s) ps \<and> distinct (fdw_xacts s @ ps) \<and>
      set (fdw_xacts s) \<union> set ps = {..<cap})"

definition entry_key :: "FdwXactData \<Rightarrow> fxfile" where
  "entry_key e = (dbid e, local_xid e, serverid e, userid e)"

definition keys_unique :: "shmem \<Rightarrow> bool" where
  "keys_unique s = distinct (map (\<lambda>p. entry_key (pool s p)) (fdw_xacts s))"

definition table_inv :: "nat \<Rightarrow> shmem \<Rightarrow> bool" where
  "table_inv cap s = (slot_partition cap s \<and> keys_unique s)"

text \<open>
  The table as a finite map from key to the rest of the entry (umid, status, WAL
  positions, valid, held_by, ondisk, inredo, identifier); the link fields and the
  slot an entry lives in are left out.
\<close>

type_synonym entry_data =
  "Oid \<times> FdwXactStatus \<times> XLogRecPtr \<times> XLogRecPtr \<times> bool \<times> BackendId \<times> bool \<times> bool \<times> string"

definition entry_data :: "FdwXactData \<Rightarrow> entry_data" where
  "entry_data e =
     (umid e, status e, insert_start_lsn e, insert_end_lsn e, valid e, held_by e, ondisk e,
      inredo e, fdw_xact_id e)"

definition table_map :: "shmem \<Rightarrow> fxfile \<rightharpoonup> entry_data" where
  "table_map s =
     map_of (map (\<lambda>p. (entry_key (pool s p), entry_data (pool s p))) (fdw_xacts s))"

text \<open>Replaying the same records \<open>n\<close> times in a row.\<close>

fun redo_times ::
  "int \<Rightarrow> nat \<Rightarrow> shmem \<Rightarrow> (XLogRecPtr \<times> XLogRecPtr \<times> xl_record) list \<Rightarrow>
   (error + unit) \<times> shmem" where
  "redo_times max_prepared 0 s rs = (Inr (), s)"
| "redo_times max_prepared (Suc n) s rs =
     (case redo_all max_prepared s rs of
        (Inl e, s1) \<Rightarrow> (Inl e, s1)
      | (Inr _, s1) \<Rightarrow> redo_times max_prepared n s1 rs)"

text \<open>A REMOVE record names its entry by four valid (nonzero) ids.\<close>

fun remove_key_valid :: "XLogRecPtr \<times> XLogRecPtr \<times> xl_record \<Rightarrow> bool" where
  "remove_key_valid (start_lsn, end_lsn, XLOG_FDW_XACT_REMOVE d x sv u) =
     (OidIsValid d \<and> x \<noteq> InvalidTransactionId \<and> OidIsValid sv \<and> OidIsValid u)"
| "remove_key_valid (start_lsn, end_lsn, XLOG_FDW_XACT_INSERT d x sv u um ident) = True"


text \<open>
  Two auxiliary relations for the proofs. \<open>same_table s s'\<close>: the step from \<open>s\<close> to
  \<open>s'\<close> left the array, the free list and the key of every slot alone.
  \<open>inv_step s s'\<close>: the step keeps the table invariant for every pool size.
\<close>

definition same_table :: "shmem \<Rightarrow> shmem \<Rightarrow> bool" where
  "same_table s s' =
     (freeFdwXacts s' = freeFdwXacts s \<and> fdw_xacts s' = fdw_xacts s \<and>
      (\<forall>q. fxact_free_next (pool s' q) = fxact_free_next (pool s q) \<and>
           entry_key (pool s' q) = entry_key (pool s q)))"

definition inv_step :: "shmem \<Rightarrow> shmem \<Rightarrow> bool" where
  "inv_step s s' = (\<forall>cap. table_inv cap s \<longrightarrow> table_inv cap s')"

text \<open>
  What replaying a record means for the table seen as a map: an INSERT record binds
  its key to a replayed entry (status preparing, the record's positions, not valid,
  held by nobody, on disk only if the start position is invalid, marked as added in
  redo), a REMOVE record unbinds its key.
\<close>

fun redo_write :: "XLogRecPtr \<times> XLogRecPtr \<times> xl_record \<Rightarrow> fxfile \<times> entry_data option" where
  "redo_write (start_lsn, end_lsn, XLOG_FDW_XACT_INSERT d x sv u um ident) =
     ((d, x, sv, u),
      Some (um, FDW_XACT_PREPARING, start_lsn, end_lsn, False, InvalidBackendId,
            XLogRecPtrIsInvalid start_lsn, True, ident))"
| "redo_write (start_lsn, end_lsn, XLOG_FDW_XACT_REMOVE d x sv u) = ((d, x, sv, u), None)"

fun map_redo_all ::
  "(XLogRecPtr \<times> XLogRecPtr \<times> xl_record) list \<Rightarrow> (fxfile \<rightharpoonup> entry_data) \<Rightarrow>
   (fxfile \<rightharpoonup> entry_data)" where
  "map_redo_all [] tm = tm"
| "map_redo_all (r # rs) tm = map_redo_all rs (tm(fst (redo_write r) := snd (redo_write r)))"

section \<open>Durability as a property of states and histories\<close>

text \<open>
  \<open>persisted_before_prepare d x evs\<close>: in the event sequence \<open>evs\<close> every call of a
  prepare callback comes directly after the flush of the INSERT record for the same
  database, transaction, server, user, user mapping and identifier.
\<close>

fun persisted_before_prepare :: "Oid \<Rightarrow> TransactionId \<Rightarrow> event list \<Rightarrow> bool" where
  "persisted_before_prepare d x [] = True"
| "persisted_before_prepare d x
     (EvXLogFlush (XLOG_FDW_XACT_INSERT d' x' sv u um ident) # EvPrepare st ok # evs) =
     (d' = d \<and> x' = x \<and> sv = st_serverid st \<and> u = st_userid st \<and> um = st_umid st \<and>
      st_fdwxact_id st = Some ident \<and> persisted_before_prepare d x evs)"
| "persisted_before_prepare d x (EvPrepare st ok # evs) = False"
| "persisted_before_prepare d x (e # evs) = persisted_before_prepare d x evs"

text \<open>The table holds a valid entry with the given key.\<close>

definition has_valid_entry :: "shmem \<Rightarrow> fxfile \<Rightarrow> bool" where
  "has_valid_entry s k =
     list_ex (\<lambda>p. entry_key (pool s p) = k \<and> valid (pool s p)) (fdw_xacts s)"

text \<open>An INSERT record for the given key is among the flushed WAL records.\<close>

fun is_insert_for :: "fxfile \<Rightarrow> XLogRecPtr \<times> XLogRecPtr \<times> xl_record \<Rightarrow> bool" where
  "is_insert_for k (start_lsn, end_lsn, XLOG_FDW_XACT_INSERT d x sv u um ident) =
     (k = (d, x, sv, u))"
| "is_insert_for k (start_lsn, end_lsn, XLOG_FDW_XACT_REMOVE d x sv u) = False"

definition insert_flushed :: "shmem \<Rightarrow> fxfile \<Rightarrow> bool" where
  "insert_flushed s k = list_ex (is_insert_for k) (take (xlog_flushed s) (xlog s))"

text \<open>
  The entry in slot \<open>p\<close> of state \<open>s\<close> is still there in state \<open>s'\<close>: same slot, same
  key, same validity, same arguments for the FDW.
\<close>

definition entry_kept :: "shmem \<Rightarrow> shmem \<Rightarrow> FdwXact \<Rightarrow> bool" where
  "entry_kept s s' p =
     (p \<in> set (fdw_xacts s') \<and> entry_key (pool s' p) = entry_key (pool s p) \<and>
      valid (pool s' p) = valid (pool s p) \<and>
      state_of_entry (pool s' p) = state_of_entry (pool s p))"

text \<open>The events a step from \<open>s\<close> to \<open>s'\<close> added to the history.\<close>

definition new_events :: "shmem \<Rightarrow> shmem \<Rightarrow> event list" where
  "new_events s s' = drop (length (history s)) (history s')"

text \<open>
  What a run of the prepare loop from \<open>s\<close> to \<open>s'\<close> for database \<open>d\<close> and transaction \<open>x\<close>
  has to satisfy: the history only grew, every prepare call in the new events comes
  directly after the flush of its INSERT record, and for every such call the table
  of \<open>s'\<close> holds a valid entry with the participant's key and the flushed WAL of \<open>s'\<close>
  holds its INSERT record.
\<close>

definition prepare_run_durable :: "Oid \<Rightarrow> TransactionId \<Rightarrow> shmem \<Rightarrow> shmem \<Rightarrow> bool" where
  "prepare_run_durable d x s s' =
     (history s' = history s @ new_events s s' \<and>
      persisted_before_prepare d x (new_events s s') \<and>
      (\<forall>st ok. EvPrepare st ok \<in> set (new_events s s') \<longrightarrow>
         has_valid_entry s' (d, x, st_serverid st, st_userid st) \<and>
         insert_flushed s' (d, x, st_serverid st, st_userid st)))"

text \<open>A step from \<open>s\<close> to \<open>s'\<close> that keeps every entry and only appends to the WAL.\<close>

definition grows :: "shmem \<Rightarrow> shmem \<Rightarrow> bool" where
  "grows s s' =
     ((\<forall>p \<in> set (fdw_xacts s). entry_kept s s' p) \<and>
      (\<exists>more. xlog s' = xlog s @ more) \<and> xlog_flushed s \<le> xlog_flushed s')"

text \<open>An event sequence that consists of one-phase commit calls only.\<close>

fun only_commits :: "event list \<Rightarrow> bool" where
  "only_commits [] = True"
| "only_commits (EvCommit st ok # evs) = only_commits evs"
| "only_commits (e # evs) = False"

text \<open>A step that only appended one-phase commit calls to the history.\<close>

definition commits_only :: "shmem \<Rightarrow> shmem \<Rightarrow> bool" where
  "commits_only s s' =
     (only_commits (new_events s s') \<and> s' = s\<lparr>history := history s @ new_events s s'\<rparr>)"

section \<open>Concrete states used in the examples\<close>

text \<open>A WAL subsystem that gives every record eight bytes, starting at position 8.\<close>

definition example_lsns :: "nat \<Rightarrow> XLogRecPtr \<times> XLogRecPtr" where
  "example_lsns n = (of_nat (8 * n + 8), of_nat (8 * n + 16))"

text \<open>A table with a single slot, taken by the entry (1, 100, 7, 9).\<close>

definition full_table :: shmem where
  "full_table =
     snd (insert_fdw_xact 1 (FdwXactShmemInit 1 example_lsns) 1 100 7 9 3 ''fx_a'')"

text \<open>A table with two slots holding the entries (1, 100, 7, 9) and (1, 100, 7, 10).\<close>

definition two_entries :: shmem where
  "two_entries =
     run_ops [OpInsert 2 1 100 7 9 3 ''fx_a'', OpInsert 2 1 100 7 10 3 ''fx_b'']
       (FdwXactShmemInit 2 example_lsns)"

text \<open>
  A foreign-data wrapper whose server 8 is not capable of two-phase commit, whose
  callbacks succeed, and which names its prepared transactions itself.
\<close>

definition example_routine :: FdwRoutine where
  "example_routine =
     \<lparr>IsTwoPhaseCommitEnabled = Some (\<lambda>sv. sv \<noteq> 8),
      PrepareForeignTransaction = Some (\<lambda>st. True),
      CommitForeignTransaction = Some (\<lambda>st. True),
      RollbackForeignTransaction = Some (\<lambda>st. True),
      GetPrepareId = Some (\<lambda>xid sv u. Some (''fx_ex'', 5)),
      ResolveForeignTransaction = (\<lambda>st is_commit. True)\<rparr>"

text \<open>The same wrapper with a resolve callback that fails.\<close>

definition failing_routine :: FdwRoutine where
  "failing_routine = example_routine\<lparr>ResolveForeignTransaction := (\<lambda>st is_commit. False)\<rparr>"

text \<open>
  A backend in database 1 running transaction 100 with eight slots, one resolver
  and \<open>NAMEDATALEN = 64\<close>, before any foreign server is registered.
\<close>

definition example_backend :: "DistributedAtomicCommitLevel \<Rightarrow> backend" where
  "example_backend level =
     \<lparr>max_prepared_foreign_xacts = 8, max_foreign_xact_resolvers = 1,
      distributed_atomic_commit = level, NAMEDATALEN = 64, MyDatabaseId = 1,
      MyBackendId = 3, TopTransactionId = 100, MyXactFlags = {},
      FdwXactAtomicCommitParticipants = [], FdwXactAtomicCommitReady = False,
      GetFdwRoutineByServerId = (\<lambda>sv. example_routine),
      GetUserMapping_umid = (\<lambda>u sv. 5), random_value = (\<lambda>sv u. 42)\<rparr>"

text \<open>The backend after it has modified data on server 7 as user 9.\<close>

definition backend_one :: "DistributedAtomicCommitLevel \<Rightarrow> backend" where
  "backend_one level = snd (register_fdw_xact (example_backend level) 7 9 True)"


text \<open>The backend after it has modified data on server 7 and on the incapable server 8.\<close>

definition backend_two :: "DistributedAtomicCommitLevel \<Rightarrow> backend" where
  "backend_two level = snd (register_fdw_xact (backend_one level) 8 9 True)"

text \<open>An empty table with eight slots.\<close>

definition empty_table :: shmem where
  "empty_table = FdwXactShmemInit 8 example_lsns"

text \<open>The table after the backend has prepared its transaction on server 7.\<close>

definition prepared_table :: shmem where
  "prepared_table =
     snd (snd (FdwXactPrepareForeignTransactions
                 (backend_one DISTRIBUTED_ATOMIC_COMMIT_PREFER) empty_table))"

text \<open>The commit log as the resolver may find it for the local transaction.\<close>

definition env_with ::
  "FdwRoutine \<Rightarrow> bool \<Rightarrow> bool \<Rightarrow> bool \<Rightarrow> resolver_env" where
  "env_with routine committed aborted running =
     \<lparr>TransactionIdDidCommit = (\<lambda>x. committed), TransactionIdDidAbort = (\<lambda>x. aborted),
      TransactionIdIsInProgress = (\<lambda>x. running), TwoPhaseExists = (\<lambda>x. False),
      GetFdwRoutine = (\<lambda>sv. routine)\<rparr>"

text \<open>The prepared table while a second entry, for server 7 and user 10, is mid-insert.\<close>

definition mixed_table :: shmem where
  "mixed_table = apply_op (OpInsert 8 1 100 7 10 3 ''fx_b'') prepared_table"

text \<open>
  A participant on server 7 whose FDW returns an identifier of a given reported
  length (a buffer of that many letters).
\<close>

definition participant_with_id_length :: "nat \<Rightarrow> FdwXactParticipant" where
  "participant_with_id_length n =
     \<lparr>fdw_xact = None, fdw_xact_id_part = None, server_serverid = 7, usermapping_userid = 9,
      usermapping_umid = 5, modified = True, twophase_commit_enabled = True,
      prepare_foreign_xact = (\<lambda>st. True), commit_foreign_xact = (\<lambda>st. True),
      rollback_foreign_xact = (\<lambda>st. True),
      get_prepareid = Some (\<lambda>xid sv u. Some (replicate n CHR ''a'', int n)),
      is_twophase_commit_enabled = (\<lambda>sv. True)\<rparr>"

text \<open>The empty table during recovery, and an INSERT and a REMOVE record for one key.\<close>

definition recovering_table :: shmem where
  "recovering_table = empty_table\<lparr>RecoveryInProgress := True\<rparr>"

definition insert_record :: "XLogRecPtr \<times> XLogRecPtr \<times> xl_record" where
  "insert_record = (8, 16, XLOG_FDW_XACT_INSERT 1 100 7 9 5 ''fx_ex'')"

definition remove_record :: "XLogRecPtr \<times> XLogRecPtr \<times> xl_record" where
  "remove_record = (16, 24, XLOG_FDW_XACT_REMOVE 1 100 7 9)"

text \<open>An INSERT record for a second key.\<close>

definition insert_record_b :: "XLogRecPtr \<times> XLogRecPtr \<times> xl_record" where
  "insert_record_b = (24, 32, XLOG_FDW_XACT_INSERT 1 100 7 10 5 ''fx_b'')"


text \<open>
  The backend after it has written a non-temporary local relation and modified data
  on server 7, and the table after that backend's pre-commit processing under
  \<open>required\<close>.
\<close>

definition backend_local_write :: "DistributedAtomicCommitLevel \<Rightarrow> backend" where
  "backend_local_write level =
     (backend_one level)\<lparr>MyXactFlags := {XACT_FLAGS_WROTENONTEMPREL}\<rparr>"

definition committed_table :: shmem where
  "committed_table =
     snd (snd (PreCommit_FdwXacts (backend_local_write DISTRIBUTED_ATOMIC_COMMIT_REQUIRED)
                 empty_table))"



section \<open>Auxiliary facts\<close>

subsection \<open>Lists and the free list\<close>

lemma free_slots_of_chain:
  "free_chain pl h ps \<Longrightarrow> length ps < n \<Longrightarrow> free_slots n pl h = ps"
proof (induction ps arbitrary: h n)
  case Nil
  then show ?case by (cases n) auto
next
  case (Cons p ps)
  then show ?case by (cases n) auto
qed

lemma chain_of_free_slots:
  "length (free_slots n pl h) < n \<Longrightarrow> free_chain pl h (free_slots n pl h)"
proof (induction n arbitrary: h)
  case 0
  then show ?case by simp
next
  case (Suc n)
  then show ?case by (cases h) auto
qed

lemma free_chain_cong:
  "(\<And>q. q \<in> set ps \<Longrightarrow> fxact_free_next (pl' q) = fxact_free_next (pl q)) \<Longrightarrow>
   free_chain pl' h ps = free_chain pl h ps"
  by (induction ps arbitrary: h) auto

lemma distinct_bounded_length:
  assumes "distinct xs" "set xs \<subseteq> {..<cap}"
  shows "length xs \<le> cap"
proof -
  have "card (set xs) \<le> card {..<cap}" using assms(2) by (intro card_mono) auto
  then show ?thesis using assms(1) by (simp add: distinct_card)
qed

lemma slot_partition_iff: "slot_partition cap s = (\<exists>ps. chain_partition cap s ps)"
proof
  assume a: "slot_partition cap s"
  define fl where "fl = free_slots (Suc cap) (pool s) (freeFdwXacts s)"
  from a have d: "distinct (fdw_xacts s @ fl)" and u: "set (fdw_xacts s) \<union> set fl = {..<cap}"
    by (simp_all add: slot_partition_def fl_def Let_def)
  from d u have "length fl \<le> cap" by (intro distinct_bounded_length) auto
  then have "free_chain (pool s) (freeFdwXacts s) fl"
    unfolding fl_def by (intro chain_of_free_slots) simp
  with d u show "\<exists>ps. chain_partition cap s ps" unfolding chain_partition_def by blast
next
  assume "\<exists>ps. chain_partition cap s ps"
  then obtain ps where c: "free_chain (pool s) (freeFdwXacts s) ps"
    and d: "distinct (fdw_xacts s @ ps)" and u: "set (fdw_xacts s) \<union> set ps = {..<cap}"
    unfolding chain_partition_def by blast
  from d u have "length ps \<le> cap" by (intro distinct_bounded_length) auto
  with c have "free_slots (Suc cap) (pool s) (freeFdwXacts s) = ps"
    by (intro free_slots_of_chain) simp_all
  with d u show "slot_partition cap s" by (simp add: slot_partition_def)
qed

lemma chain_partition_length:
  assumes "chain_partition cap s ps"
  shows "length (fdw_xacts s) + length ps = cap"
proof -
  from assms have d: "distinct (fdw_xacts s @ ps)" and u: "set (fdw_xacts s @ ps) = {..<cap}"
    by (simp_all add: chain_partition_def)
  from d have "card (set (fdw_xacts s @ ps)) = length (fdw_xacts s @ ps)"
    by (rule distinct_card)
  with u show ?thesis by simp
qed

lemma has_duplicate_iff:
  "has_duplicate pl ps d x sv u = ((d, x, sv, u) \<in> (\<lambda>p. entry_key (pl p)) ` set ps)"
  by (induction ps) (auto simp: entry_key_def)

lemma find_slot_less: "(find_slot xs p < length xs) = (p \<in> set xs)"
  by (induction xs) auto

lemma find_slot_nth: "p \<in> set xs \<Longrightarrow> xs ! find_slot xs p = p"
  by (induction xs) auto

lemma swap_remove:
  assumes "distinct xs" "i < length xs"
  shows "set (butlast (xs[i := last xs])) = set xs - {xs ! i}"
    and "distinct (butlast (xs[i := last xs]))"
proof -
  from assms(2) have "xs \<noteq> []" by auto
  then obtain ys l where xs: "xs = ys @ [l]" by (metis rev_exhaust)
  with assms(1) have dy: "distinct ys" and l: "l \<notin> set ys" by auto
  show "set (butlast (xs[i := last xs])) = set xs - {xs ! i}"
  proof (cases "i < length ys")
    case True
    then have "butlast (xs[i := last xs]) = ys[i := l]"
      by (simp add: xs list_update_append)
    moreover have "set (ys[i := l]) = insert l (set ys - {ys ! i})"
      using dy True by (rule set_update_distinct)
    moreover have "ys ! i \<in> set ys" using True by simp
    ultimately show ?thesis using True l by (auto simp: xs nth_append)
  next
    case False
    with assms(2) have "i = length ys" by (simp add: xs)
    then show ?thesis using l by (auto simp: xs)
  qed
  show "distinct (butlast (xs[i := last xs]))"
  proof (cases "i < length ys")
    case True
    then have "butlast (xs[i := last xs]) = ys[i := l]"
      by (simp add: xs list_update_append)
    moreover have "distinct (ys[i := l])"
      using dy l by (intro distinct_list_update) auto
    ultimately show ?thesis by simp
  next
    case False
    with assms(2) have "i = length ys" by (simp add: xs)
    then show ?thesis using dy by (simp add: xs)
  qed
qed

subsection \<open>Initial state\<close>

lemma init_free_list_chain:
  "free_chain pl head ps \<Longrightarrow> (\<forall>q\<in>set ps. q < cnt) \<Longrightarrow>
   free_chain (snd (init_free_list n cnt head pl)) (fst (init_free_list n cnt head pl))
     (rev [cnt..<cnt + n] @ ps)"
proof (induction n arbitrary: cnt head pl ps)
  case 0
  then show ?case by simp
next
  case (Suc n)
  let ?pl = "pl(cnt := (pl cnt)\<lparr>status := FDW_XACT_INITIAL, fxact_free_next := head\<rparr>)"
  have "free_chain ?pl head ps = free_chain pl head ps"
    by (rule free_chain_cong) (use Suc.prems(2) in auto)
  with Suc.prems(1) have c: "free_chain ?pl (Some cnt) (cnt # ps)" by simp
  have b: "\<forall>q\<in>set (cnt # ps). q < Suc cnt" using Suc.prems(2) by auto
  have eq: "rev [Suc cnt..<Suc cnt + n] @ cnt # ps = rev [cnt..<cnt + Suc n] @ ps"
    by (simp add: upt_rec [of cnt])
  have "free_chain (snd (init_free_list n (Suc cnt) (Some cnt) ?pl))
          (fst (init_free_list n (Suc cnt) (Some cnt) ?pl))
          (rev [Suc cnt..<Suc cnt + n] @ cnt # ps)"
    by (rule Suc.IH [OF c b])
  then show ?case by (simp only: eq init_free_list.simps)
qed

lemma init_chain_partition:
  "chain_partition (nat m) (FdwXactShmemInit m lsns) (rev [0..<nat m])"
proof -
  have "free_chain (snd (init_free_list (nat m) 0 None (\<lambda>_. blank_FdwXactData)))
          (fst (init_free_list (nat m) 0 None (\<lambda>_. blank_FdwXactData)))
          (rev [0..<0 + nat m] @ [])"
    by (rule init_free_list_chain) simp_all
  then show ?thesis
    by (auto simp: chain_partition_def FdwXactShmemInit_def split: prod.splits)
qed

lemma init_table_inv: "table_inv (nat m) (FdwXactShmemInit m lsns)"
proof -
  have "slot_partition (nat m) (FdwXactShmemInit m lsns)"
    unfolding slot_partition_iff using init_chain_partition by blast
  moreover have "keys_unique (FdwXactShmemInit m lsns)"
    by (simp add: keys_unique_def FdwXactShmemInit_def split: prod.splits)
  ultimately show ?thesis by (simp add: table_inv_def)
qed

subsection \<open>Insert and remove\<close>

lemma insert_fdw_xact_error:
  "insert_fdw_xact m s d x sv u um ident = (Inl e, s') \<Longrightarrow> s' = s"
  by (simp add: insert_fdw_xact_def Let_def split: if_splits option.splits)

lemma insert_fdw_xact_success:
  assumes "insert_fdw_xact m s d x sv u um ident = (Inr p, s')"
  shows "freeFdwXacts s = Some p"
    and "\<not> has_duplicate (pool s) (fdw_xacts s) d x sv u"
    and "s' = s\<lparr>freeFdwXacts := fxact_free_next (pool s p), fdw_xacts := fdw_xacts s @ [p],
              pool := (pool s)(p := (pool s p)
                     \<lparr>held_by := InvalidBackendId, dbid := d, local_xid := x, serverid := sv,
                      userid := u, umid := um, insert_start_lsn := InvalidXLogRecPtr,
                      insert_end_lsn := InvalidXLogRecPtr, valid := False, ondisk := False,
                      inredo := False, fdw_xact_id := ident\<rparr>)\<rparr>"
  using assms
  by (simp_all add: insert_fdw_xact_def Let_def split: if_splits option.splits)

lemma insert_fdw_xact_chain:
  assumes c: "chain_partition cap s ps"
    and i: "insert_fdw_xact m s d x sv u um ident = (Inr p, s')"
  shows "\<exists>ps'. ps = p # ps' \<and> chain_partition cap s' ps'"
proof -
  note f = insert_fdw_xact_success [OF i]
  have fr: "freeFdwXacts s' = fxact_free_next (pool s p)"
    and ar: "fdw_xacts s' = fdw_xacts s @ [p]"
    and nx: "\<And>q. fxact_free_next (pool s' q) = fxact_free_next (pool s q)"
    by (simp_all add: f(3))
  from c have ch: "free_chain (pool s) (freeFdwXacts s) ps"
    and di: "distinct (fdw_xacts s @ ps)" and un: "set (fdw_xacts s) \<union> set ps = {..<cap}"
    by (simp_all add: chain_partition_def)
  from ch f(1) obtain ps' where ps: "ps = p # ps'"
    and ch': "free_chain (pool s) (fxact_free_next (pool s p)) ps'"
    by (cases ps) auto
  have "free_chain (pool s') (freeFdwXacts s') ps' =
        free_chain (pool s) (freeFdwXacts s') ps'"
    by (rule free_chain_cong) (rule nx)
  with ch' have "free_chain (pool s') (freeFdwXacts s') ps'" by (simp add: fr)
  moreover have "distinct (fdw_xacts s' @ ps')" using di ps by (simp add: ar)
  moreover have "set (fdw_xacts s') \<union> set ps' = {..<cap}" using un ps by (simp add: ar)
  ultimately show ?thesis using ps by (simp add: chain_partition_def)
qed

lemma insert_fdw_xact_keys:
  assumes c: "chain_partition cap s ps" and k: "keys_unique s"
    and i: "insert_fdw_xact m s d x sv u um ident = (Inr p, s')"
  shows "keys_unique s'"
proof -
  note f = insert_fdw_xact_success [OF i]
  have ar: "fdw_xacts s' = fdw_xacts s @ [p]"
    and ek: "\<And>q. q \<noteq> p \<Longrightarrow> entry_key (pool s' q) = entry_key (pool s q)"
    and new: "entry_key (pool s' p) = (d, x, sv, u)"
    by (simp_all add: f(3) entry_key_def)
  from c have ch: "free_chain (pool s) (freeFdwXacts s) ps"
    and di: "distinct (fdw_xacts s @ ps)"
    by (simp_all add: chain_partition_def)
  from ch f(1) have "p \<in> set ps" by (cases ps) auto
  with di have pn: "p \<notin> set (fdw_xacts s)" by auto
  have same: "map (\<lambda>q. entry_key (pool s' q)) (fdw_xacts s) =
              map (\<lambda>q. entry_key (pool s q)) (fdw_xacts s)"
  proof (rule map_cong [OF refl])
    fix q assume "q \<in> set (fdw_xacts s)"
    with pn have "q \<noteq> p" by auto
    then show "entry_key (pool s' q) = entry_key (pool s q)" by (rule ek)
  qed
  from f(2) have "(d, x, sv, u) \<notin> (\<lambda>q. entry_key (pool s q)) ` set (fdw_xacts s)"
    by (simp add: has_duplicate_iff)
  with k show "keys_unique s'"
    by (simp add: keys_unique_def ar same new)
qed

lemma remove_fdw_xact_error:
  "remove_fdw_xact s p = (Inl e, s') \<Longrightarrow> s' = s \<and> p \<notin> set (fdw_xacts s)"
  by (simp add: remove_fdw_xact_def Let_def find_slot_less [symmetric]
           split: if_splits prod.splits)

lemma remove_fdw_xact_success:
  assumes "remove_fdw_xact s p = (Inr v, s')"
  shows "p \<in> set (fdw_xacts s)"
    and "freeFdwXacts s' = Some p"
    and "fdw_xacts s' =
           butlast ((fdw_xacts s)[find_slot (fdw_xacts s) p := last (fdw_xacts s)])"
    and "pool s' = (pool s)(p := (pool s p)
                     \<lparr>fxact_free_next := freeFdwXacts s, status := FDW_XACT_INITIAL,
                      held_by := InvalidBackendId, fxact_next := None\<rparr>)"
    and "files s' = files s"
    and "RecoveryInProgress s' = RecoveryInProgress s"
    and "XLogInsert_lsn s' = XLogInsert_lsn s"
proof -
  from assms show "p \<in> set (fdw_xacts s)"
    by (simp add: remove_fdw_xact_def Let_def find_slot_less [symmetric] split: if_splits)
  then have lt: "\<not> length (fdw_xacts s) \<le> find_slot (fdw_xacts s) p"
    by (simp add: find_slot_less [symmetric])
  define s2 where "s2 = s\<lparr>fdw_xacts :=
      butlast ((fdw_xacts s)[find_slot (fdw_xacts s) p := last (fdw_xacts s)]),
      pool := (pool s)(p := (pool s p)
                     \<lparr>fxact_free_next := freeFdwXacts s, status := FDW_XACT_INITIAL,
                      held_by := InvalidBackendId, fxact_next := None\<rparr>),
      freeFdwXacts := Some p\<rparr>"
  have "s' = s2 \<or> (\<exists>xl fl h. s' = s2\<lparr>xlog := xl, xlog_flushed := fl, history := h\<rparr>)"
    using assms lt
    by (cases "RecoveryInProgress s")
       (clarsimp simp: remove_fdw_xact_def Let_def XLogInsertAndFlush_def s2_def
                 split: prod.splits, blast?)+
  then show "freeFdwXacts s' = Some p"
    and "fdw_xacts s' =
           butlast ((fdw_xacts s)[find_slot (fdw_xacts s) p := last (fdw_xacts s)])"
    and "pool s' = (pool s)(p := (pool s p)
                     \<lparr>fxact_free_next := freeFdwXacts s, status := FDW_XACT_INITIAL,
                      held_by := InvalidBackendId, fxact_next := None\<rparr>)"
    and "files s' = files s"
    and "RecoveryInProgress s' = RecoveryInProgress s"
    and "XLogInsert_lsn s' = XLogInsert_lsn s"
    by (auto simp: s2_def)
qed

lemma remove_fdw_xact_total:
  "p \<in> set (fdw_xacts s) \<Longrightarrow> fst (remove_fdw_xact s p) = Inr ()"
  by (simp add: remove_fdw_xact_def Let_def find_slot_less [symmetric] split: prod.splits)

lemma remove_fdw_xact_set:
  assumes da: "distinct (fdw_xacts s)" and r: "remove_fdw_xact s p = (Inr v, s')"
  shows "set (fdw_xacts s') = set (fdw_xacts s) - {p}" and "distinct (fdw_xacts s')"
proof -
  note f = remove_fdw_xact_success [OF r]
  from f(1) have lt: "find_slot (fdw_xacts s) p < length (fdw_xacts s)"
    by (simp add: find_slot_less)
  have nth: "fdw_xacts s ! find_slot (fdw_xacts s) p = p" using f(1) by (rule find_slot_nth)
  show "set (fdw_xacts s') = set (fdw_xacts s) - {p}"
    using swap_remove(1) [OF da lt] by (simp add: f(3) nth)
  show "distinct (fdw_xacts s')" using swap_remove(2) [OF da lt] by (simp add: f(3))
qed

lemma remove_fdw_xact_chain:
  assumes c: "chain_partition cap s ps"
    and r: "remove_fdw_xact s p = (Inr v, s')"
  shows "chain_partition cap s' (p # ps)"
proof -
  note f = remove_fdw_xact_success [OF r]
  from c have ch: "free_chain (pool s) (freeFdwXacts s) ps"
    and di: "distinct (fdw_xacts s @ ps)" and un: "set (fdw_xacts s) \<union> set ps = {..<cap}"
    by (simp_all add: chain_partition_def)
  from di have da: "distinct (fdw_xacts s)" by simp
  note st = remove_fdw_xact_set [OF da r]
  from di f(1) have pn: "p \<notin> set ps" by auto
  have "free_chain (pool s') (freeFdwXacts s) ps = free_chain (pool s) (freeFdwXacts s) ps"
    by (rule free_chain_cong) (use pn in \<open>auto simp: f(4)\<close>)
  with ch have "free_chain (pool s') (freeFdwXacts s) ps" by simp
  then have "free_chain (pool s') (Some p) (p # ps)" by (simp add: f(4))
  moreover have "distinct (fdw_xacts s' @ p # ps)" using st di pn by auto
  moreover have "set (fdw_xacts s') \<union> set (p # ps) = {..<cap}" using st(1) un f(1) by auto
  ultimately show ?thesis by (simp add: chain_partition_def f(2))
qed

lemma remove_fdw_xact_keys:
  assumes da: "distinct (fdw_xacts s)" and k: "keys_unique s"
    and r: "remove_fdw_xact s p = (Inr v, s')"
  shows "keys_unique s'"
proof -
  note f = remove_fdw_xact_success [OF r]
  note st = remove_fdw_xact_set [OF da r]
  have ek: "\<And>q. entry_key (pool s' q) = entry_key (pool s q)"
    by (simp add: f(4) entry_key_def)
  from k da have "inj_on (\<lambda>q. entry_key (pool s q)) (set (fdw_xacts s))"
    by (simp add: keys_unique_def distinct_map)
  then have "inj_on (\<lambda>q. entry_key (pool s q)) (set (fdw_xacts s'))"
    by (rule inj_on_subset) (use st(1) in auto)
  with st(2) show ?thesis by (simp add: keys_unique_def distinct_map ek)
qed

subsection \<open>Steps that keep the invariant\<close>

lemma inv_step_refl: "inv_step s s"
  by (simp add: inv_step_def)

lemma inv_step_trans: "inv_step s s1 \<Longrightarrow> inv_step s1 s2 \<Longrightarrow> inv_step s s2"
  by (simp add: inv_step_def)

lemma same_table_refl: "same_table s s"
  by (simp add: same_table_def)

lemma same_table_trans: "same_table s s1 \<Longrightarrow> same_table s1 s2 \<Longrightarrow> same_table s s2"
  by (simp add: same_table_def)

lemma same_table_chain:
  assumes "same_table s s'" "chain_partition cap s ps"
  shows "chain_partition cap s' ps"
proof -
  have "free_chain (pool s') (freeFdwXacts s) ps = free_chain (pool s) (freeFdwXacts s) ps"
    by (rule free_chain_cong) (use assms(1) in \<open>simp add: same_table_def\<close>)
  with assms show ?thesis by (simp add: chain_partition_def same_table_def)
qed

lemma same_table_keys: "same_table s s' \<Longrightarrow> keys_unique s \<Longrightarrow> keys_unique s'"
  by (simp add: keys_unique_def same_table_def)

lemma same_table_inv_step: "same_table s s' \<Longrightarrow> inv_step s s'"
  unfolding inv_step_def table_inv_def slot_partition_iff
  using same_table_chain same_table_keys by blast

lemma same_table_pool:
  "fxact_free_next e = fxact_free_next (pool s p) \<Longrightarrow> entry_key e = entry_key (pool s p) \<Longrightarrow>
   same_table s (s\<lparr>pool := (pool s)(p := e)\<rparr>)"
  by (simp add: same_table_def)

lemma insert_fdw_xact_inv_step: "inv_step s (snd (insert_fdw_xact m s d x sv u um ident))"
proof (cases "fst (insert_fdw_xact m s d x sv u um ident)")
  case (Inl e)
  then have "insert_fdw_xact m s d x sv u um ident =
             (Inl e, snd (insert_fdw_xact m s d x sv u um ident))"
    by (simp add: prod_eq_iff)
  then have "snd (insert_fdw_xact m s d x sv u um ident) = s"
    by (rule insert_fdw_xact_error)
  then show ?thesis by (simp add: inv_step_refl)
next
  case (Inr p)
  then have i: "insert_fdw_xact m s d x sv u um ident =
             (Inr p, snd (insert_fdw_xact m s d x sv u um ident))"
    by (simp add: prod_eq_iff)
  show ?thesis
    unfolding inv_step_def table_inv_def slot_partition_iff
    using insert_fdw_xact_chain [OF _ i] insert_fdw_xact_keys [OF _ _ i] by blast
qed

lemma remove_fdw_xact_inv_step: "inv_step s (snd (remove_fdw_xact s p))"
proof (cases "fst (remove_fdw_xact s p)")
  case (Inl e)
  then have "remove_fdw_xact s p = (Inl e, snd (remove_fdw_xact s p))"
    by (simp add: prod_eq_iff)
  then have "snd (remove_fdw_xact s p) = s"
    by (rule remove_fdw_xact_error [THEN conjunct1])
  then show ?thesis by (simp add: inv_step_refl)
next
  case (Inr v)
  then have r: "remove_fdw_xact s p = (Inr v, snd (remove_fdw_xact s p))"
    by (simp add: prod_eq_iff)
  have "keys_unique (snd (remove_fdw_xact s p))"
    if "chain_partition cap s ps" "keys_unique s" for cap ps
    using that remove_fdw_xact_keys [OF _ _ r] by (simp add: chain_partition_def)
  then show ?thesis
    unfolding inv_step_def table_inv_def slot_partition_iff
    using remove_fdw_xact_chain [OF _ r] by blast
qed

subsection \<open>Every modelled operation keeps the invariant\<close>

lemma same_inv_step_trans: "same_table s s1 \<Longrightarrow> inv_step s1 s2 \<Longrightarrow> inv_step s s2"
  using same_table_inv_step inv_step_trans by blast

lemma inv_same_step_trans: "inv_step s s1 \<Longrightarrow> same_table s1 s2 \<Longrightarrow> inv_step s s2"
  using same_table_inv_step inv_step_trans by blast

lemma XLogInsertAndFlush_same: "same_table s (snd (snd (XLogInsertAndFlush s r)))"
  by (simp add: XLogInsertAndFlush_def same_table_def Let_def split: prod.splits)

lemma XLogInsertAndFlush_pool:
  "pool (snd (snd (XLogInsertAndFlush s r))) = pool s"
  by (simp add: XLogInsertAndFlush_def Let_def split: prod.splits)

lemma RemoveFdwXactFile_same: "same_table s (RemoveFdwXactFile s d x sv u)"
  by (simp add: RemoveFdwXactFile_def same_table_def)

lemma FdwXactCommitForeignTransaction_same:
  "same_table s (snd (FdwXactCommitForeignTransaction s fdw_part))"
  by (simp add: FdwXactCommitForeignTransaction_def same_table_def Let_def)

lemma FdwXactInsertFdwXactEntry_step:
  "inv_step s (snd (snd (FdwXactInsertFdwXactEntry b s xid fdw_part)))"
proof (cases "fdw_xact_id_part fdw_part")
  case None
  then show ?thesis by (simp add: FdwXactInsertFdwXactEntry_def inv_step_refl)
next
  case (Some ident)
  obtain r s0 where ins:
    "insert_fdw_xact (max_prepared_foreign_xacts b) s (MyDatabaseId b) xid
       (server_serverid fdw_part) (usermapping_userid fdw_part)
       (usermapping_umid fdw_part) ident = (r, s0)"
    by (cases "insert_fdw_xact (max_prepared_foreign_xacts b) s (MyDatabaseId b) xid
       (server_serverid fdw_part) (usermapping_userid fdw_part)
       (usermapping_umid fdw_part) ident")
  have st: "inv_step s s0"
    using insert_fdw_xact_inv_step
      [of s "max_prepared_foreign_xacts b" "MyDatabaseId b" xid "server_serverid fdw_part"
          "usermapping_userid fdw_part" "usermapping_umid fdw_part" ident]
    by (simp add: ins)
  show ?thesis
  proof (cases r)
    case (Inl e)
    with st Some ins show ?thesis by (simp add: FdwXactInsertFdwXactEntry_def)
  next
    case (Inr fxact)
    have "same_table s0 (snd (snd (FdwXactInsertFdwXactEntry b s xid fdw_part)))"
      using Some ins Inr
      by (simp add: FdwXactInsertFdwXactEntry_def XLogInsertAndFlush_def Let_def
            same_table_def entry_key_def split: prod.splits)
    with st show ?thesis by (rule inv_same_step_trans)
  qed
qed


lemma prepare_loop_step: "inv_step s (snd (snd (prepare_loop b s ps)))"
proof (induction ps arbitrary: s)
  case Nil
  show ?case by (simp add: inv_step_refl)
next
  case (Cons fdw_part rest)
  show ?case
  proof (cases "prepare_identifier b fdw_part")
    case (Inl e)
    then show ?thesis by (simp add: inv_step_refl)
  next
    case (Inr ident)
    obtain r fdw_part1 s1 where ins:
      "FdwXactInsertFdwXactEntry b s (TopTransactionId b)
         (fdw_part\<lparr>fdw_xact_id_part := Some ident\<rparr>) = (r, fdw_part1, s1)"
      by (cases "FdwXactInsertFdwXactEntry b s (TopTransactionId b)
         (fdw_part\<lparr>fdw_xact_id_part := Some ident\<rparr>)")
    have st: "inv_step s s1"
      using FdwXactInsertFdwXactEntry_step
        [of s b "TopTransactionId b" "fdw_part\<lparr>fdw_xact_id_part := Some ident\<rparr>"]
      by (simp add: ins)
    show ?thesis
    proof (cases r)
      case (Inl e)
      with st Inr ins show ?thesis by simp
    next
      case fx: (Inr fdwxact)
      define state where "state = \<lparr>st_serverid = server_serverid fdw_part1,
                           st_userid = usermapping_userid fdw_part1,
                           st_umid = usermapping_umid fdw_part1,
                           st_fdwxact_id = Some (fdw_xact_id (pool s1 fdwxact))\<rparr>"
      have st2: "inv_step s (s1\<lparr>history := history s1 @ [EvPrepare state ok]\<rparr>)" for ok
        using st by (rule inv_same_step_trans) (simp add: same_table_def)
      show ?thesis
      proof (cases "prepare_foreign_xact fdw_part1 state")
        case False
        with st2 [of False] Inr ins fx show ?thesis
          by (simp add: Let_def state_def [symmetric])
      next
        case ok: True
        show ?thesis
        proof (cases "fdw_xact fdw_part1")
          case None
          with st2 [of True] Inr ins fx ok show ?thesis
            by (simp add: Let_def state_def [symmetric])
        next
          case (Some own)
          define s2 where "s2 = s1\<lparr>history := history s1 @ [EvPrepare state True]\<rparr>"
          define s3 where
            "s3 = s2\<lparr>pool := (pool s2)(own := (pool s2 own)\<lparr>status := FDW_XACT_PREPARED\<rparr>)\<rparr>"
          have "inv_step s s3"
            using st2 [of True]
            by (rule inv_same_step_trans) (simp add: s3_def s2_def same_table_def entry_key_def)
          then have "inv_step s (snd (snd (prepare_loop b s3 rest)))"
            using Cons.IH [of s3] by (rule inv_step_trans)
          then show ?thesis
            using Inr ins fx ok Some
            by (clarsimp simp: Let_def state_def [symmetric] s3_def s2_def split: prod.splits)
        qed
      qed
    qed
  qed
qed

lemma commit_loop_same: "same_table s (snd (snd (commit_loop need level s ps)))"
proof (induction ps arbitrary: s)
  case Nil
  show ?case by (simp add: same_table_refl)
next
  case (Cons fdw_part rest)
  obtain r s1 where c: "FdwXactCommitForeignTransaction s fdw_part = (r, s1)"
    by (cases "FdwXactCommitForeignTransaction s fdw_part")
  have s1: "same_table s s1"
    using FdwXactCommitForeignTransaction_same [of s fdw_part] by (simp add: c)
  have "same_table s (snd (snd (commit_loop need level s1 rest)))"
    using s1 Cons.IH [of s1] by (rule same_table_trans)
  then show ?case
    using Cons.IH [of s] c s1
    by (cases r) (auto simp: Let_def split: prod.splits)
qed

lemma FdwXactPrepareForeignTransactions_step:
  "inv_step s (snd (snd (FdwXactPrepareForeignTransactions b s)))"
  using prepare_loop_step [of s b "FdwXactAtomicCommitParticipants b"]
  by (auto simp: FdwXactPrepareForeignTransactions_def inv_step_refl split: prod.splits)

lemma PreCommit_FdwXacts_step: "inv_step s (snd (snd (PreCommit_FdwXacts b s)))"
proof (cases "FdwXactAtomicCommitParticipants b = []")
  case True
  then show ?thesis by (simp add: PreCommit_FdwXacts_def inv_step_refl)
next
  case False
  obtain need b1 where req: "FdwXactAtomicCommitRequired b = (need, b1)"
    by (cases "FdwXactAtomicCommitRequired b")
  obtain r ps s1 where cl:
    "commit_loop need (distributed_atomic_commit b1) s (FdwXactAtomicCommitParticipants b1) =
       (r, ps, s1)"
    by (cases "commit_loop need (distributed_atomic_commit b1) s
                 (FdwXactAtomicCommitParticipants b1)") 
  have s1: "same_table s s1"
    using commit_loop_same
      [of s need "distributed_atomic_commit b1" "FdwXactAtomicCommitParticipants b1"]
    by (simp add: cl)
  have a: "inv_step s (snd (FdwXactCommitForeignTransaction s1 (hd ps)))"
    using s1 FdwXactCommitForeignTransaction_same [of s1 "hd ps"]
    by (blast intro: same_table_trans same_table_inv_step)
  have b: "inv_step s (snd (snd (FdwXactPrepareForeignTransactions
             (b1\<lparr>FdwXactAtomicCommitParticipants := ps\<rparr>) s1)))"
    using s1 FdwXactPrepareForeignTransactions_step by (rule same_inv_step_trans)
  have c: "inv_step s s1" using s1 by (rule same_table_inv_step)
  show ?thesis
    using False req cl a b c
    by (cases r) (auto simp: PreCommit_FdwXacts_def inv_step_refl Let_def split: prod.splits)
qed


lemma resolve_decide_same: "same_table s (snd (resolve_decide env s fdwxact))"
  by (simp add: resolve_decide_def Let_def same_table_def entry_key_def)

lemma FdwXactResolveForeignTransaction_snd:
  "snd (FdwXactResolveForeignTransaction env s state fdwxact lev) =
     (case resolve_decide env s fdwxact of
        (Inl e, s1) \<Rightarrow> s1
      | (Inr is_commit, s1) \<Rightarrow>
         (let ret = ResolveForeignTransaction (GetFdwRoutine env (serverid (pool s1 fdwxact)))
                      state is_commit;
              s2 = s1\<lparr>history := history s1 @ [EvResolve state is_commit ret]\<rparr>
          in if \<not> ret \<and> elevel_throws lev then s2
             else snd (remove_fdw_xact
                         (if ondisk (pool s2 fdwxact)
                          then RemoveFdwXactFile s2 (dbid (pool s2 fdwxact))
                                 (local_xid (pool s2 fdwxact)) (serverid (pool s2 fdwxact))
                                 (userid (pool s2 fdwxact))
                          else s2)
                         fdwxact)))"
  by (auto simp: FdwXactResolveForeignTransaction_def Let_def split: prod.splits sum.splits)

lemma FdwXactResolveForeignTransaction_step:
  "inv_step s (snd (FdwXactResolveForeignTransaction env s state fdwxact lev))"
proof -
  obtain r s1 where d: "resolve_decide env s fdwxact = (r, s1)"
    by (cases "resolve_decide env s fdwxact")
  have s1: "same_table s s1" using resolve_decide_same [of s env fdwxact] by (simp add: d)
  show ?thesis
  proof (cases r)
    case (Inl e)
    with d s1 show ?thesis
      by (simp add: FdwXactResolveForeignTransaction_snd same_table_inv_step)
  next
    case (Inr is_commit)
    define ret where
      "ret = ResolveForeignTransaction (GetFdwRoutine env (serverid (pool s1 fdwxact)))
               state is_commit"
    define s2 where "s2 = s1\<lparr>history := history s1 @ [EvResolve state is_commit ret]\<rparr>"
    define s3 where
      "s3 = (if ondisk (pool s2 fdwxact)
             then RemoveFdwXactFile s2 (dbid (pool s2 fdwxact)) (local_xid (pool s2 fdwxact))
                    (serverid (pool s2 fdwxact)) (userid (pool s2 fdwxact))
             else s2)"
    have s2: "same_table s s2"
      using s1 by (rule same_table_trans) (simp add: s2_def same_table_def)
    have s3: "same_table s s3"
      using s2 by (rule same_table_trans) (simp add: s3_def RemoveFdwXactFile_same same_table_refl)
    have rm: "inv_step s (snd (remove_fdw_xact s3 fdwxact))"
      using s3 remove_fdw_xact_inv_step by (rule same_inv_step_trans)
    have "snd (FdwXactResolveForeignTransaction env s state fdwxact lev) =
          (if \<not> ret \<and> elevel_throws lev then s2 else snd (remove_fdw_xact s3 fdwxact))"
      using d Inr
      by (simp add: FdwXactResolveForeignTransaction_snd Let_def ret_def s2_def s3_def)
    with rm s2 show ?thesis by (simp add: same_table_inv_step)
  qed
qed

lemma resolve_loop_step: "inv_step s (snd (resolve_loop env s ps))"
proof (induction ps arbitrary: s)
  case Nil
  show ?case by (simp add: inv_step_refl)
next
  case (Cons fdwxact rest)
  obtain r s1 where f:
    "FdwXactResolveForeignTransaction env s (state_of_entry (pool s fdwxact)) fdwxact ERROR =
       (r, s1)"
    by (cases "FdwXactResolveForeignTransaction env s (state_of_entry (pool s fdwxact))
                 fdwxact ERROR")
  have s1: "inv_step s s1"
    using FdwXactResolveForeignTransaction_step
      [of s env "state_of_entry (pool s fdwxact)" fdwxact ERROR]
    by (simp add: f)
  have "inv_step s (snd (resolve_loop env s1 rest))"
    using s1 Cons.IH [of s1] by (rule inv_step_trans)
  with s1 f show ?case by (cases r) simp_all
qed

lemma FdwXactRedoAdd_step:
  "inv_step s (snd (FdwXactRedoAdd m s d x sv u um ident start_lsn end_lsn))"
proof -
  obtain r s1 where ins: "insert_fdw_xact m s d x sv u um ident = (r, s1)"
    by (cases "insert_fdw_xact m s d x sv u um ident")
  have s1: "inv_step s s1"
    using insert_fdw_xact_inv_step [of s m d x sv u um ident] by (simp add: ins)
  show ?thesis
  proof (cases r)
    case (Inl e)
    with s1 ins show ?thesis by (simp add: FdwXactRedoAdd_def)
  next
    case (Inr fxact)
    have "same_table s1 (snd (FdwXactRedoAdd m s d x sv u um ident start_lsn end_lsn))"
      using ins Inr by (simp add: FdwXactRedoAdd_def same_table_def entry_key_def)
    with s1 show ?thesis by (rule inv_same_step_trans)
  qed
qed

lemma FdwXactRedoRemove_step: "inv_step s (snd (FdwXactRedoRemove s d x sv u))"
proof (cases "get_one_fdw_xact s d x sv u")
  case None
  then show ?thesis by (simp add: FdwXactRedoRemove_def inv_step_refl)
next
  case (Some fdwxact)
  define s1 where
    "s1 = (if ondisk (pool s fdwxact)
           then RemoveFdwXactFile s (dbid (pool s fdwxact)) (local_xid (pool s fdwxact))
                  (serverid (pool s fdwxact)) (userid (pool s fdwxact))
           else s)"
  have "same_table s s1" by (simp add: s1_def RemoveFdwXactFile_same same_table_refl)
  then have "inv_step s (snd (remove_fdw_xact s1 fdwxact))"
    using remove_fdw_xact_inv_step by (rule same_inv_step_trans)
  then show ?thesis using Some by (simp add: FdwXactRedoRemove_def Let_def s1_def)
qed

lemma fdw_xact_redo_step: "inv_step s (snd (fdw_xact_redo m s r))"
proof -
  obtain a b rec where r: "r = (a, b, rec)" by (cases r)
  show ?thesis unfolding r
    by (cases rec) (simp_all add: FdwXactRedoAdd_step FdwXactRedoRemove_step)
qed

lemma redo_all_step: "inv_step s (snd (redo_all m s rs))"
proof (induction rs arbitrary: s)
  case Nil
  show ?case by (simp add: inv_step_refl)
next
  case (Cons r rs)
  obtain res s1 where f: "fdw_xact_redo m s r = (res, s1)" by (cases "fdw_xact_redo m s r")
  have s1: "inv_step s s1" using fdw_xact_redo_step [of s m r] by (simp add: f)
  have "inv_step s (snd (redo_all m s1 rs))" using s1 Cons.IH [of s1] by (rule inv_step_trans)
  with s1 f show ?case by (cases res) simp_all
qed

lemma pg_resolve_fdw_xact_step: "inv_step s (snd (pg_resolve_fdw_xact su env b s x sv u))"
  by (simp add: pg_resolve_fdw_xact_def inv_step_refl FdwXactResolveForeignTransaction_step
        split: option.splits)

lemma pg_remove_fdw_xact_step: "inv_step s (snd (pg_remove_fdw_xact su b s x sv u))"
  by (simp add: pg_remove_fdw_xact_def inv_step_refl remove_fdw_xact_inv_step
        split: option.splits)

lemma checkpoint_loop_same: "same_table s (snd (checkpoint_loop s ps h))"
proof (induction ps arbitrary: s)
  case Nil
  show ?case by (simp add: same_table_refl)
next
  case (Cons fxact rest)
  define e where "e = pool s fxact"
  define s2 where
    "s2 = s\<lparr>files := insert (dbid e, local_xid e, serverid e, userid e) (files s),
            pool := (pool s)(fxact := e\<lparr>ondisk := True, insert_start_lsn := InvalidXLogRecPtr,
                                       insert_end_lsn := InvalidXLogRecPtr\<rparr>)\<rparr>"
  have "same_table s s2" by (simp add: s2_def e_def same_table_def entry_key_def)
  then have "same_table s (snd (checkpoint_loop s2 rest h))"
    using Cons.IH [of s2] by (rule same_table_trans)
  then show ?case
    using Cons.IH [of s]
    by (simp add: Let_def e_def [symmetric] s2_def same_table_refl split: sum.splits)
qed

lemma CheckPointFdwXacts_step: "inv_step s (snd (CheckPointFdwXacts m s h))"
  by (simp add: CheckPointFdwXacts_def inv_step_refl checkpoint_loop_same same_table_inv_step)

lemma forget_loop_same: "same_table s (forget_loop me s ps)"
proof (induction ps arbitrary: s)
  case Nil
  show ?case by (simp add: same_table_refl)
next
  case (Cons fdw_part rest)
  show ?case
  proof (cases "fdw_xact fdw_part")
    case None
    then show ?thesis using Cons.IH [of s] by simp
  next
    case (Some fxact)
    define s1 where
      "s1 = s\<lparr>pool := (pool s)(fxact := (pool s fxact)\<lparr>held_by := InvalidBackendId\<rparr>)\<rparr>"
    have "same_table s s1" by (simp add: s1_def same_table_def entry_key_def)
    then have "same_table s (forget_loop me s1 rest)"
      using Cons.IH [of s1] by (rule same_table_trans)
    then show ?thesis using Some Cons.IH [of s] by (simp add: s1_def)
  qed
qed

lemma ForgetAllFdwXactParticipants_step:
  "inv_step s (snd (ForgetAllFdwXactParticipants b s))"
  by (simp add: ForgetAllFdwXactParticipants_def inv_step_refl forget_loop_same
        same_table_inv_step)

lemma apply_op_step: "inv_step s (apply_op op s)"
proof (cases op)
  case (OpInsert m d x sv u um ident)
  then show ?thesis by (simp add: insert_fdw_xact_inv_step)
next
  case (OpRemove p)
  then show ?thesis by (simp add: remove_fdw_xact_inv_step)
next
  case (OpPreCommit b)
  then show ?thesis by (simp add: PreCommit_FdwXacts_step)
next
  case (OpPrepare b)
  then show ?thesis by (simp add: FdwXactPrepareForeignTransactions_step)
next
  case (OpResolve env state p lev)
  then show ?thesis by (simp add: FdwXactResolveForeignTransaction_step)
next
  case (OpResolveWaiter env d x)
  then show ?thesis by (simp add: resolve_waiter_def resolve_loop_step)
next
  case (OpResolveDangling env d)
  then show ?thesis by (simp add: FdwXactResolveAllDanglingTransactions_def resolve_loop_step)
next
  case (OpRedo m r)
  then show ?thesis by (simp add: fdw_xact_redo_step)
next
  case (OpPgResolve su env b x sv u)
  then show ?thesis by (simp add: pg_resolve_fdw_xact_step)
next
  case (OpPgRemove su b x sv u)
  then show ?thesis by (simp add: pg_remove_fdw_xact_step)
next
  case (OpCheckPoint m h)
  then show ?thesis by (simp add: CheckPointFdwXacts_step)
next
  case (OpForget b)
  then show ?thesis by (simp add: ForgetAllFdwXactParticipants_step)
qed

lemma run_ops_step: "inv_step s (run_ops ops s)"
proof (induction ops arbitrary: s)
  case Nil
  show ?case by (simp add: inv_step_refl)
next
  case (Cons op ops)
  have "inv_step s (run_ops ops (apply_op op s))"
    using apply_op_step Cons.IH by (rule inv_step_trans)
  then show ?case by simp
qed

subsection \<open>Searching and listing\<close>

lemma get_fdw_xacts_loop_all:
  "get_fdw_xacts_loop pl ps InvalidOid InvalidTransactionId InvalidOid InvalidOid = ps"
  by (induction ps) (simp_all add: OidIsValid_def Let_def)

lemma prepared_rows_filter: "prepared_rows es = map row_of (filter valid es)"
  by (induction es) simp_all

subsection \<open>The history only grows\<close>

lemma remove_fdw_xact_history:
  "\<exists>rest. history (snd (remove_fdw_xact s p)) = history s @ rest"
  by (simp add: remove_fdw_xact_def Let_def XLogInsertAndFlush_def split: prod.splits)

lemma RemoveFdwXactFile_history:
  "history (RemoveFdwXactFile s d x sv u) = history s @ [EvUnlink (d, x, sv, u)]"
  by (simp add: RemoveFdwXactFile_def)

lemma resolve_decide_history: "history (snd (resolve_decide env s p)) = history s"
  by (simp add: resolve_decide_def Let_def)

lemma resolve_decide_pool_key:
  "serverid (pool (snd (resolve_decide env s p)) q) = serverid (pool s q)"
  by (simp add: resolve_decide_def Let_def)

lemma FdwXactResolveForeignTransaction_history:
  assumes "resolve_decide env s p = (Inr is_commit, s1)"
  shows "\<exists>rest. history (snd (FdwXactResolveForeignTransaction env s state p lev)) =
           history s @
           EvResolve state is_commit
             (ResolveForeignTransaction (GetFdwRoutine env (serverid (pool s p)))
                state is_commit) # rest"
proof -
  define ret where
    "ret = ResolveForeignTransaction (GetFdwRoutine env (serverid (pool s1 p))) state is_commit"
  define s2 where "s2 = s1\<lparr>history := history s1 @ [EvResolve state is_commit ret]\<rparr>"
  define s3 where
    "s3 = (if ondisk (pool s2 p)
           then RemoveFdwXactFile s2 (dbid (pool s2 p)) (local_xid (pool s2 p))
                  (serverid (pool s2 p)) (userid (pool s2 p))
           else s2)"
  have h1: "history s1 = history s"
    using resolve_decide_history [of env s p] by (simp add: assms)
  have sv: "serverid (pool s1 p) = serverid (pool s p)"
    using resolve_decide_pool_key [of env s p p] by (simp add: assms)
  have h2: "history s2 = history s @ [EvResolve state is_commit ret]"
    by (simp add: s2_def h1)
  have "\<exists>r. history s3 = history s2 @ r"
    by (simp add: s3_def RemoveFdwXactFile_history)
  then obtain r where h3: "history s3 = history s2 @ r" by blast
  obtain r' where h4: "history (snd (remove_fdw_xact s3 p)) = history s3 @ r'"
    using remove_fdw_xact_history by blast
  have "snd (FdwXactResolveForeignTransaction env s state p lev) =
        (if \<not> ret \<and> elevel_throws lev then s2 else snd (remove_fdw_xact s3 p))"
    using assms
    by (simp add: FdwXactResolveForeignTransaction_snd Let_def ret_def s2_def s3_def)
  then have "\<exists>rest. history (snd (FdwXactResolveForeignTransaction env s state p lev)) =
               history s @ EvResolve state is_commit ret # rest"
    using h2 h3 h4 by auto
  then show ?thesis by (simp add: ret_def sv)
qed

subsection \<open>Probing the participants\<close>



subsection \<open>The table as a map, and replay\<close>

lemma map_eq_SomeI:
  assumes "\<And>k v. (m1 k = Some v) = (m2 k = Some v)"
  shows "m1 = m2"
proof
  fix k
  show "m1 k = m2 k"
  proof (cases "m1 k")
    case None
    with assms [of k] show ?thesis by (cases "m2 k") auto
  next
    case (Some v)
    with assms [of k v] show ?thesis by simp
  qed
qed

lemma table_map_Some:
  assumes "keys_unique s"
  shows "(table_map s k = Some v) =
         (\<exists>p \<in> set (fdw_xacts s). entry_key (pool s p) = k \<and> entry_data (pool s p) = v)"
proof -
  have "distinct (map fst (map (\<lambda>p. (entry_key (pool s p), entry_data (pool s p)))
                              (fdw_xacts s)))"
    using assms by (simp add: keys_unique_def comp_def)
  then show ?thesis unfolding table_map_def by auto
qed

lemma get_fdw_xacts_loop_exact:
  assumes "OidIsValid d" "x \<noteq> InvalidTransactionId" "OidIsValid sv" "OidIsValid u"
  shows "get_fdw_xacts_loop pl ps d x sv u = filter (\<lambda>p. entry_key (pl p) = (d, x, sv, u)) ps"
  using assms by (induction ps) (auto simp: Let_def entry_key_def)

lemma slot_partition_distinct: "slot_partition cap s \<Longrightarrow> distinct (fdw_xacts s)"
  by (simp add: slot_partition_def Let_def)

lemma FdwXactRedoAdd_map:
  assumes inv: "table_inv cap s"
    and ok: "FdwXactRedoAdd m s d x sv u um ident start_lsn end_lsn = (Inr v, s')"
  shows "table_map s' =
           (table_map s)((d, x, sv, u) \<mapsto>
              (um, FDW_XACT_PREPARING, start_lsn, end_lsn, False, InvalidBackendId,
               XLogRecPtrIsInvalid start_lsn, True, ident))"
proof -
  obtain r s1 where ins: "insert_fdw_xact m s d x sv u um ident = (r, s1)"
    by (cases "insert_fdw_xact m s d x sv u um ident")
  from ok ins obtain p where r: "r = Inr p"
    by (cases r) (simp_all add: FdwXactRedoAdd_def)
  note f = insert_fdw_xact_success [OF ins [unfolded r]]
  from inv obtain ps where c: "chain_partition cap s ps"
    by (auto simp: table_inv_def slot_partition_iff)
  from c f(1) have "p \<in> set ps" by (cases ps) (auto simp: chain_partition_def)
  with c have pn: "p \<notin> set (fdw_xacts s)" by (auto simp: chain_partition_def)
  have s': "s' = s1\<lparr>pool := (pool s1)
               (p := (pool s1 p)
                  \<lparr>status := FDW_XACT_PREPARING, insert_start_lsn := start_lsn,
                   insert_end_lsn := end_lsn, inredo := True, valid := False,
                   ondisk := XLogRecPtrIsInvalid start_lsn\<rparr>)\<rparr>"
    using ok ins r by (simp add: FdwXactRedoAdd_def)
  have ar: "fdw_xacts s' = fdw_xacts s @ [p]" by (simp add: s' f(3))
  have old: "\<And>q. q \<noteq> p \<Longrightarrow> pool s' q = pool s q" by (simp add: s' f(3))
  have newk: "entry_key (pool s' p) = (d, x, sv, u)" by (simp add: s' f(3) entry_key_def)
  have newd: "entry_data (pool s' p) =
              (um, FDW_XACT_PREPARING, start_lsn, end_lsn, False, InvalidBackendId,
               XLogRecPtrIsInvalid start_lsn, True, ident)"
    by (simp add: s' f(3) entry_data_def)
  have same: "map (\<lambda>q. (entry_key (pool s' q), entry_data (pool s' q))) (fdw_xacts s) =
              map (\<lambda>q. (entry_key (pool s q), entry_data (pool s q))) (fdw_xacts s)"
  proof (rule map_cong [OF refl])
    fix q assume "q \<in> set (fdw_xacts s)"
    with pn have "q \<noteq> p" by auto
    then show "(entry_key (pool s' q), entry_data (pool s' q)) =
               (entry_key (pool s q), entry_data (pool s q))"
      by (simp add: old)
  qed
  from f(2) have "(d, x, sv, u) \<notin> (\<lambda>q. entry_key (pool s q)) ` set (fdw_xacts s)"
    by (simp add: has_duplicate_iff)
  then have nk: "table_map s (d, x, sv, u) = None"
    by (simp add: table_map_def map_of_eq_None_iff image_image)
  have "table_map s' =
        map_of [((d, x, sv, u), (um, FDW_XACT_PREPARING, start_lsn, end_lsn, False,
                 InvalidBackendId, XLogRecPtrIsInvalid start_lsn, True, ident))] ++ table_map s"
    by (simp add: table_map_def ar same newk newd)
  also have "\<dots> = (table_map s)((d, x, sv, u) \<mapsto>
              (um, FDW_XACT_PREPARING, start_lsn, end_lsn, False, InvalidBackendId,
               XLogRecPtrIsInvalid start_lsn, True, ident))"
    using nk by (auto simp: map_add_def fun_eq_iff split: option.splits)
  finally show ?thesis .
qed


lemma FdwXactRedoRemove_map:
  assumes inv: "table_inv cap s"
    and va: "OidIsValid d" "x \<noteq> InvalidTransactionId" "OidIsValid sv" "OidIsValid u"
  shows "fst (FdwXactRedoRemove s d x sv u) = Inr ()"
    and "table_map (snd (FdwXactRedoRemove s d x sv u)) = (table_map s)((d, x, sv, u) := None)"
proof -
  from inv have ku: "keys_unique s" and da: "distinct (fdw_xacts s)"
    by (auto simp: table_inv_def dest: slot_partition_distinct)
  have g: "get_fdw_xacts s d x sv u =
           filter (\<lambda>p. entry_key (pool s p) = (d, x, sv, u)) (fdw_xacts s)"
    unfolding get_fdw_xacts_def using va by (rule get_fdw_xacts_loop_exact)
  show "fst (FdwXactRedoRemove s d x sv u) = Inr ()"
   and "table_map (snd (FdwXactRedoRemove s d x sv u)) = (table_map s)((d, x, sv, u) := None)"
  proof (atomize (full), cases "get_one_fdw_xact s d x sv u")
    case None
    then have "filter (\<lambda>p. entry_key (pool s p) = (d, x, sv, u)) (fdw_xacts s) = []"
      by (simp add: get_one_fdw_xact_def g split: list.splits)
    then have "\<forall>p \<in> set (fdw_xacts s). entry_key (pool s p) \<noteq> (d, x, sv, u)"
      by (simp add: filter_empty_conv)
    then have "table_map s (d, x, sv, u) = None"
      by (auto simp: table_map_def map_of_eq_None_iff image_image)
    then have "(table_map s)((d, x, sv, u) := None) = table_map s" by (simp add: fun_upd_idem)
    with None show "fst (FdwXactRedoRemove s d x sv u) = Inr () \<and>
      table_map (snd (FdwXactRedoRemove s d x sv u)) = (table_map s)((d, x, sv, u) := None)"
      by (simp add: FdwXactRedoRemove_def)
  next
    case (Some p)
    then obtain rest where
      "filter (\<lambda>p. entry_key (pool s p) = (d, x, sv, u)) (fdw_xacts s) = p # rest"
      by (auto simp: get_one_fdw_xact_def g split: list.splits)
    then have "p \<in> set (filter (\<lambda>p. entry_key (pool s p) = (d, x, sv, u)) (fdw_xacts s))"
      by (simp only: list.set_intros)
    then have pin: "p \<in> set (fdw_xacts s)" and pk: "entry_key (pool s p) = (d, x, sv, u)"
      by simp_all
    define s1 where
      "s1 = (if ondisk (pool s p)
             then RemoveFdwXactFile s (dbid (pool s p)) (local_xid (pool s p))
                    (serverid (pool s p)) (userid (pool s p))
             else s)"
    have s1a: "fdw_xacts s1 = fdw_xacts s" and s1p: "pool s1 = pool s"
      by (simp_all add: s1_def RemoveFdwXactFile_def)
    have eq: "FdwXactRedoRemove s d x sv u = remove_fdw_xact s1 p"
      using Some by (simp add: FdwXactRedoRemove_def Let_def s1_def)
    have ok: "fst (remove_fdw_xact s1 p) = Inr ()"
      using pin by (intro remove_fdw_xact_total) (simp add: s1a)
    then have r: "remove_fdw_xact s1 p = (Inr (), snd (remove_fdw_xact s1 p))"
      by (simp add: prod_eq_iff)
    let ?s' = "snd (remove_fdw_xact s1 p)"
    note f = remove_fdw_xact_success [OF r]
    have st: "set (fdw_xacts ?s') = set (fdw_xacts s) - {p}"
      using remove_fdw_xact_set(1) [OF _ r] da by (simp add: s1a)
    have ku': "keys_unique ?s'"
      using remove_fdw_xact_keys [OF _ _ r] da ku
      by (simp add: s1a keys_unique_def s1p)
    have old: "\<And>q. q \<noteq> p \<Longrightarrow> pool ?s' q = pool s q" by (simp add: f(4) s1p)
    have uniq: "\<And>q. q \<in> set (fdw_xacts s) \<Longrightarrow> entry_key (pool s q) = (d, x, sv, u) \<Longrightarrow> q = p"
    proof -
      fix q assume "q \<in> set (fdw_xacts s)" "entry_key (pool s q) = (d, x, sv, u)"
      moreover from ku da have "inj_on (\<lambda>q. entry_key (pool s q)) (set (fdw_xacts s))"
        by (simp add: keys_unique_def distinct_map)
      ultimately show "q = p" using pin pk by (simp add: inj_on_def)
    qed
    have "table_map ?s' = (table_map s)((d, x, sv, u) := None)"
    proof (rule map_eq_SomeI)
      fix k v
      have "(table_map ?s' k = Some v) =
            (\<exists>q \<in> set (fdw_xacts s) - {p}.
               entry_key (pool ?s' q) = k \<and> entry_data (pool ?s' q) = v)"
        by (simp add: table_map_Some [OF ku'] st)
      also have "\<dots> = (\<exists>q \<in> set (fdw_xacts s) - {p}.
               entry_key (pool s q) = k \<and> entry_data (pool s q) = v)"
        by (auto simp: old)
      also have "\<dots> = (k \<noteq> (d, x, sv, u) \<and>
            (\<exists>q \<in> set (fdw_xacts s). entry_key (pool s q) = k \<and> entry_data (pool s q) = v))"
        using uniq pk by auto
      also have "\<dots> = (((table_map s)((d, x, sv, u) := None)) k = Some v)"
        by (simp add: table_map_Some [OF ku])
      finally show "(table_map ?s' k = Some v) =
                    (((table_map s)((d, x, sv, u) := None)) k = Some v)" .
    qed
    with ok show "fst (FdwXactRedoRemove s d x sv u) = Inr () \<and>
      table_map (snd (FdwXactRedoRemove s d x sv u)) = (table_map s)((d, x, sv, u) := None)"
      by (simp add: eq)
  qed
qed

lemma fdw_xact_redo_map:
  assumes "table_inv cap s" "remove_key_valid r" "fst (fdw_xact_redo m s r) = Inr ()"
  shows "table_map (snd (fdw_xact_redo m s r)) =
           (table_map s)(fst (redo_write r) := snd (redo_write r))"
proof -
  obtain a b rec where r: "r = (a, b, rec)" by (cases r)
  show ?thesis
  proof (cases rec)
    case (XLOG_FDW_XACT_INSERT d x sv u um ident)
    with assms(3) r have "FdwXactRedoAdd m s d x sv u um ident a b =
        (Inr (), snd (FdwXactRedoAdd m s d x sv u um ident a b))"
      by (simp add: prod_eq_iff)
    from FdwXactRedoAdd_map [OF assms(1) this] show ?thesis
      by (simp add: r XLOG_FDW_XACT_INSERT)
  next
    case (XLOG_FDW_XACT_REMOVE d x sv u)
    with assms(2) r have "OidIsValid d" "x \<noteq> InvalidTransactionId" "OidIsValid sv" "OidIsValid u"
      by simp_all
    from FdwXactRedoRemove_map(2) [OF assms(1) this] show ?thesis
      by (simp add: r XLOG_FDW_XACT_REMOVE)
  qed
qed

lemma redo_all_map:
  assumes "table_inv cap s" "\<forall>r \<in> set rs. remove_key_valid r" "fst (redo_all m s rs) = Inr ()"
  shows "table_map (snd (redo_all m s rs)) = map_redo_all rs (table_map s) \<and>
         table_inv cap (snd (redo_all m s rs))"
  using assms
proof (induction rs arbitrary: s)
  case Nil
  then show ?case by simp
next
  case (Cons r rs)
  obtain res s1 where f: "fdw_xact_redo m s r = (res, s1)" by (cases "fdw_xact_redo m s r")
  from Cons.prems(3) f have res: "res = Inr ()" by (cases res) simp_all
  have inv1: "table_inv cap s1"
    using fdw_xact_redo_step [of s m r] Cons.prems(1) by (simp add: inv_step_def f)
  have m1: "table_map s1 = (table_map s)(fst (redo_write r) := snd (redo_write r))"
    using fdw_xact_redo_map [of cap s r m] Cons.prems(1,2) by (simp add: f res)
  have "fst (redo_all m s1 rs) = Inr ()" using Cons.prems(3) by (simp add: f res)
  from Cons.IH [OF inv1 _ this] Cons.prems(2)
  have ih: "table_map (snd (redo_all m s1 rs)) = map_redo_all rs (table_map s1) \<and>
            table_inv cap (snd (redo_all m s1 rs))"
    by simp
  have e: "redo_all m s (r # rs) = redo_all m s1 rs" by (simp add: f res)
  show ?case unfolding e using ih by (simp only: m1 map_redo_all.simps)
qed

lemma map_redo_all_append:
  "map_redo_all (rs @ [r]) tm = (map_redo_all rs tm)(fst (redo_write r) := snd (redo_write r))"
  by (induction rs arbitrary: tm) simp_all

lemma map_redo_all_agree:
  "(\<And>j. j \<noteq> k \<Longrightarrow> m1 j = m2 j) \<Longrightarrow>
   (map_redo_all rs m1)(k := v) = (map_redo_all rs m2)(k := v)"
proof (induction rs arbitrary: m1 m2)
  case Nil
  then show ?case by (auto simp: fun_eq_iff)
next
  case (Cons r rs)
  have "(map_redo_all rs (m1(fst (redo_write r) := snd (redo_write r))))(k := v) =
        (map_redo_all rs (m2(fst (redo_write r) := snd (redo_write r))))(k := v)"
    by (rule Cons.IH) (simp add: Cons.prems)
  then show ?case by simp
qed

lemma map_redo_all_idem: "map_redo_all rs (map_redo_all rs tm) = map_redo_all rs tm"
proof (induction rs arbitrary: tm rule: rev_induct)
  case Nil
  show ?case by simp
next
  case (snoc r rs)
  let ?k = "fst (redo_write r)" and ?v = "snd (redo_write r)"
  have "map_redo_all (rs @ [r]) (map_redo_all (rs @ [r]) tm) =
        (map_redo_all rs ((map_redo_all rs tm)(?k := ?v)))(?k := ?v)"
    by (simp only: map_redo_all_append)
  also have "\<dots> = (map_redo_all rs (map_redo_all rs tm))(?k := ?v)"
    by (rule map_redo_all_agree) simp
  also have "\<dots> = (map_redo_all rs tm)(?k := ?v)" by (simp only: snoc.IH)
  also have "\<dots> = map_redo_all (rs @ [r]) tm" by (simp only: map_redo_all_append)
  finally show ?case .
qed

lemma redo_times_map:
  assumes "table_inv cap s" "\<forall>r \<in> set rs. remove_key_valid r"
    "fst (redo_times m (Suc n) s rs) = Inr ()"
  shows "table_map (snd (redo_times m (Suc n) s rs)) = map_redo_all rs (table_map s)"
  using assms
proof (induction n arbitrary: s)
  case 0
  obtain res s1 where f: "redo_all m s rs = (res, s1)" by (cases "redo_all m s rs")
  from "0.prems"(3) f have res: "res = Inr ()" by (cases res) simp_all
  from redo_all_map [of cap s rs m] "0.prems"(1,2) show ?case by (simp add: f res)
next
  case (Suc n)
  obtain res s1 where f: "redo_all m s rs = (res, s1)" by (cases "redo_all m s rs")
  from Suc.prems(3) f have res: "res = Inr ()" by (cases res) simp_all
  from redo_all_map [of cap s rs m] Suc.prems(1,2)
  have m1: "table_map s1 = map_redo_all rs (table_map s)" and inv1: "table_inv cap s1"
    by (simp_all add: f res)
  have "fst (redo_times m (Suc n) s1 rs) = Inr ()" using Suc.prems(3) by (simp add: f res)
  from Suc.IH [OF inv1 Suc.prems(2) this]
  have "table_map (snd (redo_times m (Suc n) s1 rs)) = map_redo_all rs (table_map s)"
    by (simp add: m1 map_redo_all_idem)
  then show ?case by (simp add: f res)
qed

subsection \<open>Persist, then prepare\<close>

lemma FdwXactInsertFdwXactEntry_success:
  assumes c: "chain_partition cap s ps"
    and r: "FdwXactInsertFdwXactEntry b s xid fdw_part = (Inr p, fdw_part1, s')"
  shows "\<exists>ident a e.
           fdw_xact_id_part fdw_part = Some ident \<and>
           history s' = history s @
             [EvXLogFlush (XLOG_FDW_XACT_INSERT (MyDatabaseId b) xid (server_serverid fdw_part)
                (usermapping_userid fdw_part) (usermapping_umid fdw_part) ident)] \<and>
           xlog s' = xlog s @
             [(a, e, XLOG_FDW_XACT_INSERT (MyDatabaseId b) xid (server_serverid fdw_part)
                (usermapping_userid fdw_part) (usermapping_umid fdw_part) ident)] \<and>
           fdw_xact_id (pool s' p) = ident"
    and "length (xlog s') \<le> xlog_flushed s'" and "xlog_flushed s \<le> xlog_flushed s'"
    and "fdw_part1 = fdw_part\<lparr>fdw_xact := Some p\<rparr>"
    and "fdw_xacts s' = fdw_xacts s @ [p]"
    and "p \<notin> set (fdw_xacts s)"
    and "\<And>q. q \<noteq> p \<Longrightarrow> pool s' q = pool s q"
    and "entry_key (pool s' p) =
           (MyDatabaseId b, xid, server_serverid fdw_part, usermapping_userid fdw_part)"
    and "valid (pool s' p)"
    and "\<exists>ps'. chain_partition cap s' ps'"
proof -
  from r obtain ident where id: "fdw_xact_id_part fdw_part = Some ident"
    by (cases "fdw_xact_id_part fdw_part") (simp_all add: FdwXactInsertFdwXactEntry_def)
  obtain res s0 where ins:
    "insert_fdw_xact (max_prepared_foreign_xacts b) s (MyDatabaseId b) xid
       (server_serverid fdw_part) (usermapping_userid fdw_part)
       (usermapping_umid fdw_part) ident = (res, s0)"
    by (cases "insert_fdw_xact (max_prepared_foreign_xacts b) s (MyDatabaseId b) xid
       (server_serverid fdw_part) (usermapping_userid fdw_part)
       (usermapping_umid fdw_part) ident")
  from r id ins have res: "res = Inr p"
    by (cases res) (simp_all add: FdwXactInsertFdwXactEntry_def Let_def XLogInsertAndFlush_def
                      split: prod.splits)
  note f = insert_fdw_xact_success [OF ins [unfolded res]]
  obtain a e where lsn: "XLogInsert_lsn s (length (xlog s)) = (a, e)"
    by (cases "XLogInsert_lsn s (length (xlog s))")
  let ?rec = "XLOG_FDW_XACT_INSERT (MyDatabaseId b) xid (server_serverid fdw_part)
                (usermapping_userid fdw_part) (usermapping_umid fdw_part) ident"
  have s': "s' = s0\<lparr>pool := (pool s0)(p := (pool s0 p)
                    \<lparr>status := FDW_XACT_PREPARING, held_by := MyBackendId b,
                     insert_end_lsn := e, insert_start_lsn := a, valid := True\<rparr>),
                  xlog := xlog s0 @ [(a, e, ?rec)],
                  xlog_flushed := max (xlog_flushed s0) (Suc (length (xlog s0))),
                  history := history s0 @ [EvXLogFlush ?rec]\<rparr>"
    and p1: "fdw_part1 = fdw_part\<lparr>fdw_xact := Some p\<rparr>"
    using r id ins res lsn
    by (clarsimp simp: FdwXactInsertFdwXactEntry_def Let_def XLogInsertAndFlush_def f(3))+
  show "fdw_part1 = fdw_part\<lparr>fdw_xact := Some p\<rparr>" by (rule p1)
  have "history s' = history s @ [EvXLogFlush ?rec]" by (simp add: s' f(3))
  moreover have "xlog s' = xlog s @ [(a, e, ?rec)]" by (simp add: s' f(3))
  moreover have "fdw_xact_id (pool s' p) = ident" by (simp add: s' f(3))
  ultimately show "\<exists>ident a e.
           fdw_xact_id_part fdw_part = Some ident \<and>
           history s' = history s @
             [EvXLogFlush (XLOG_FDW_XACT_INSERT (MyDatabaseId b) xid (server_serverid fdw_part)
                (usermapping_userid fdw_part) (usermapping_umid fdw_part) ident)] \<and>
           xlog s' = xlog s @
             [(a, e, XLOG_FDW_XACT_INSERT (MyDatabaseId b) xid (server_serverid fdw_part)
                (usermapping_userid fdw_part) (usermapping_umid fdw_part) ident)] \<and>
           fdw_xact_id (pool s' p) = ident"
    using id by blast
  show "length (xlog s') \<le> xlog_flushed s'" by (simp add: s')
  show "xlog_flushed s \<le> xlog_flushed s'" by (simp add: s' f(3))
  show "fdw_xacts s' = fdw_xacts s @ [p]" by (simp add: s' f(3))
  from c f(1) have "p \<in> set ps" by (cases ps) (auto simp: chain_partition_def)
  with c show "p \<notin> set (fdw_xacts s)" by (auto simp: chain_partition_def)
  show "\<And>q. q \<noteq> p \<Longrightarrow> pool s' q = pool s q" by (simp add: s' f(3))
  show "entry_key (pool s' p) =
           (MyDatabaseId b, xid, server_serverid fdw_part, usermapping_userid fdw_part)"
    by (simp add: s' f(3) entry_key_def)
  show "valid (pool s' p)" by (simp add: s' f(3))
  from insert_fdw_xact_chain [OF c ins [unfolded res]]
  obtain ps' where c0: "chain_partition cap s0 ps'" by blast
  have "same_table s0 s'" by (simp add: s' same_table_def entry_key_def)
  from same_table_chain [OF this c0] show "\<exists>ps'. chain_partition cap s' ps'" by blast
qed


lemma FdwXactInsertFdwXactEntry_error:
  "FdwXactInsertFdwXactEntry b s xid fdw_part = (Inl e, fdw_part1, s') \<Longrightarrow> s' = s"
proof (cases "fdw_xact_id_part fdw_part")
  case None
  assume "FdwXactInsertFdwXactEntry b s xid fdw_part = (Inl e, fdw_part1, s')"
  with None show ?thesis by (simp add: FdwXactInsertFdwXactEntry_def)
next
  case (Some ident)
  assume r: "FdwXactInsertFdwXactEntry b s xid fdw_part = (Inl e, fdw_part1, s')"
  obtain res s0 where ins:
    "insert_fdw_xact (max_prepared_foreign_xacts b) s (MyDatabaseId b) xid
       (server_serverid fdw_part) (usermapping_userid fdw_part)
       (usermapping_umid fdw_part) ident = (res, s0)"
    by (cases "insert_fdw_xact (max_prepared_foreign_xacts b) s (MyDatabaseId b) xid
       (server_serverid fdw_part) (usermapping_userid fdw_part)
       (usermapping_umid fdw_part) ident")
  show ?thesis
  proof (cases res)
    case (Inl e')
    with ins have "s0 = s" by (simp add: insert_fdw_xact_error)
    with r Some ins Inl show ?thesis by (simp add: FdwXactInsertFdwXactEntry_def)
  next
    case (Inr p)
    with r Some ins show ?thesis
      by (simp add: FdwXactInsertFdwXactEntry_def Let_def split: prod.splits)
  qed
qed

lemma grows_refl: "grows s s"
  by (simp add: grows_def entry_kept_def)

lemma grows_trans:
  assumes "grows s s1" "grows s1 s2"
  shows "grows s s2"
proof -
  have "entry_kept s s2 p" if "p \<in> set (fdw_xacts s)" for p
  proof -
    from assms(1) that have k1: "entry_kept s s1 p" by (simp add: grows_def)
    then have "p \<in> set (fdw_xacts s1)" by (simp add: entry_kept_def)
    with assms(2) have "entry_kept s1 s2 p" by (simp add: grows_def)
    with k1 show ?thesis by (simp add: entry_kept_def)
  qed
  moreover from assms have "\<exists>more. xlog s2 = xlog s @ more" by (auto simp: grows_def)
  moreover from assms have "xlog_flushed s \<le> xlog_flushed s2" by (simp add: grows_def)
  ultimately show ?thesis by (simp add: grows_def)
qed

lemma insert_flushed_grows:
  assumes "grows s s'" "insert_flushed s k"
  shows "insert_flushed s' k"
proof -
  from assms(1) obtain more where x: "xlog s' = xlog s @ more"
    and f: "xlog_flushed s \<le> xlog_flushed s'"
    by (auto simp: grows_def)
  have "set (take (xlog_flushed s) (xlog s)) \<subseteq> set (take (xlog_flushed s) (xlog s'))"
    by (simp add: x)
  also have "\<dots> \<subseteq> set (take (xlog_flushed s') (xlog s'))"
    using f by (rule set_take_subset_set_take)
  finally show ?thesis using assms(2) by (auto simp: insert_flushed_def list_ex_iff)
qed

lemma has_valid_entry_grows:
  assumes "grows s s'" "has_valid_entry s k"
  shows "has_valid_entry s' k"
proof -
  from assms(2) obtain p where p: "p \<in> set (fdw_xacts s)" "entry_key (pool s p) = k"
    "valid (pool s p)"
    by (auto simp: has_valid_entry_def list_ex_iff)
  with assms(1) have "entry_kept s s' p" by (simp add: grows_def)
  with p show ?thesis by (auto simp: has_valid_entry_def list_ex_iff entry_kept_def)
qed

lemma prepare_run_durable_refl: "prepare_run_durable d x s s"
  by (simp add: prepare_run_durable_def new_events_def)

lemma prepare_run_durable_step:
  assumes h1: "history s1 = history s @
                 [EvXLogFlush (XLOG_FDW_XACT_INSERT d x (st_serverid st) (st_userid st)
                                 (st_umid st) ident),
                  EvPrepare st ok]"
    and id: "st_fdwxact_id st = Some ident"
    and e1: "has_valid_entry s1 (d, x, st_serverid st, st_userid st)"
    and w1: "insert_flushed s1 (d, x, st_serverid st, st_userid st)"
    and g: "grows s1 s'"
    and d: "prepare_run_durable d x s1 s'"
  shows "prepare_run_durable d x s s'"
proof -
  let ?two = "[EvXLogFlush (XLOG_FDW_XACT_INSERT d x (st_serverid st) (st_userid st)
                              (st_umid st) ident), EvPrepare st ok]"
  define evs1 where "evs1 = new_events s1 s'"
  from d have h: "history s' = history s1 @ evs1"
    and p: "persisted_before_prepare d x evs1"
    and v: "\<forall>st ok. EvPrepare st ok \<in> set evs1 \<longrightarrow>
         has_valid_entry s' (d, x, st_serverid st, st_userid st) \<and>
         insert_flushed s' (d, x, st_serverid st, st_userid st)"
    by (simp_all add: prepare_run_durable_def evs1_def)
  have hs: "history s' = history s @ ?two @ evs1" using h h1 by simp
  have ne: "new_events s s' = ?two @ evs1"
    unfolding new_events_def hs by simp
  have "persisted_before_prepare d x (new_events s s')"
    using p id by (simp add: ne)
  moreover have "has_valid_entry s' (d, x, st_serverid st, st_userid st)"
    using g e1 by (rule has_valid_entry_grows)
  moreover have "insert_flushed s' (d, x, st_serverid st, st_userid st)"
    using g w1 by (rule insert_flushed_grows)
  ultimately show ?thesis
    using v hs by (auto simp: prepare_run_durable_def ne)
qed


lemma prepare_loop_durable:
  assumes "chain_partition cap s ps0"
  shows "prepare_run_durable (MyDatabaseId b) (TopTransactionId b) s
           (snd (snd (prepare_loop b s parts))) \<and>
         grows s (snd (snd (prepare_loop b s parts)))"
  using assms
proof (induction parts arbitrary: s ps0)
  case Nil
  show ?case by (simp add: prepare_run_durable_refl grows_refl)
next
  case (Cons fdw_part rest)
  let ?d = "MyDatabaseId b" and ?x = "TopTransactionId b"
  show ?case
  proof (cases "prepare_identifier b fdw_part")
    case (Inl e)
    then show ?thesis by (simp add: prepare_run_durable_refl grows_refl)
  next
    case (Inr ident)
    define fp where "fp = fdw_part\<lparr>fdw_xact_id_part := Some ident\<rparr>"
    obtain r fdw_part1 s1 where ins:
      "FdwXactInsertFdwXactEntry b s ?x fp = (r, fdw_part1, s1)"
      by (cases "FdwXactInsertFdwXactEntry b s ?x fp")
    show ?thesis
    proof (cases r)
      case (Inl e)
      with ins have "s1 = s" by (simp add: FdwXactInsertFdwXactEntry_error)
      with Inr ins Inl show ?thesis
        by (simp add: fp_def [symmetric] prepare_run_durable_refl grows_refl)
    next
      case fx: (Inr p)
      note F = FdwXactInsertFdwXactEntry_success [OF Cons.prems ins [unfolded fx]]
      from F(1) obtain a e where
        h1: "history s1 = history s @
               [EvXLogFlush (XLOG_FDW_XACT_INSERT ?d ?x (server_serverid fdw_part)
                  (usermapping_userid fdw_part) (usermapping_umid fdw_part) ident)]"
        and x1: "xlog s1 = xlog s @
               [(a, e, XLOG_FDW_XACT_INSERT ?d ?x (server_serverid fdw_part)
                  (usermapping_userid fdw_part) (usermapping_umid fdw_part) ident)]"
        and i1: "fdw_xact_id (pool s1 p) = ident"
        by (auto simp: fp_def)
      define st where "st = \<lparr>st_serverid = server_serverid fdw_part1,
                           st_userid = usermapping_userid fdw_part1,
                           st_umid = usermapping_umid fdw_part1,
                           st_fdwxact_id = Some (fdw_xact_id (pool s1 p))\<rparr>"
      have st: "st_serverid st = server_serverid fdw_part"
        "st_userid st = usermapping_userid fdw_part"
        "st_umid st = usermapping_umid fdw_part" "st_fdwxact_id st = Some ident"
        by (simp_all add: st_def F(4) fp_def i1)
      let ?k = "(?d, ?x, st_serverid st, st_userid st)"
      have key1: "entry_key (pool s1 p) = ?k" by (simp add: F(8) st fp_def)
      have g1: "grows s s1"
        unfolding grows_def
      proof (intro conjI ballI)
        fix q assume q: "q \<in> set (fdw_xacts s)"
        with F(6) have "q \<noteq> p" by auto
        then have "pool s1 q = pool s q" by (rule F(7))
        with q show "entry_kept s s1 q" by (simp add: entry_kept_def F(5))
      next
        show "\<exists>more. xlog s1 = xlog s @ more" using x1 by blast
        show "xlog_flushed s \<le> xlog_flushed s1" by (rule F(3))
      qed
      have e1: "has_valid_entry s1 ?k"
        using key1 F(9) by (auto simp: has_valid_entry_def list_ex_iff F(5))
      have "take (xlog_flushed s1) (xlog s1) = xlog s1" using F(2) by simp
      then have w1: "insert_flushed s1 ?k"
        by (simp add: insert_flushed_def x1 st)
      have step: "prepare_run_durable ?d ?x s s' \<and> grows s s'"
        if h: "history s2 = history s1 @ [EvPrepare st ok]"
          and e2: "has_valid_entry s2 ?k" and w2: "insert_flushed s2 ?k"
          and g12: "grows s1 s2" and g: "grows s2 s'" and d: "prepare_run_durable ?d ?x s2 s'"
        for s2 s' ok
      proof
        have "history s2 = history s @
                 [EvXLogFlush (XLOG_FDW_XACT_INSERT ?d ?x (st_serverid st) (st_userid st)
                                 (st_umid st) ident), EvPrepare st ok]"
          by (simp add: h h1 st)
        from prepare_run_durable_step [OF this st(4) e2 w2 g d]
        show "prepare_run_durable ?d ?x s s'" .
        from g1 g12 have "grows s s2" by (rule grows_trans)
        then show "grows s s'" using g by (rule grows_trans)
      qed
      have keep_hist: "grows s1 (s1\<lparr>history := h\<rparr>)" for h
        by (simp add: grows_def entry_kept_def)
      show ?thesis
      proof (cases "prepare_foreign_xact fdw_part1 st")
        case False
        define s2 where "s2 = s1\<lparr>history := history s1 @ [EvPrepare st False]\<rparr>"
        have res: "snd (snd (prepare_loop b s (fdw_part # rest))) = s2"
          using Inr ins fx False
          by (simp add: fp_def [symmetric] Let_def st_def [symmetric] s2_def)
        have "prepare_run_durable ?d ?x s s2 \<and> grows s s2"
        proof (rule step)
          show "history s2 = history s1 @ [EvPrepare st False]" by (simp add: s2_def)
          show "has_valid_entry s2 ?k" using e1 by (simp add: s2_def has_valid_entry_def)
          show "insert_flushed s2 ?k" using w1 by (simp add: s2_def insert_flushed_def)
          show "grows s1 s2" unfolding s2_def by (rule keep_hist)
          show "grows s2 s2" by (rule grows_refl)
          show "prepare_run_durable ?d ?x s2 s2" by (rule prepare_run_durable_refl)
        qed
        then show ?thesis by (simp only: res)
      next
        case ok: True
        define s2 where "s2 = s1\<lparr>history := history s1 @ [EvPrepare st True]\<rparr>"
        define s3 where
          "s3 = s2\<lparr>pool := (pool s2)(p := (pool s2 p)\<lparr>status := FDW_XACT_PREPARED\<rparr>)\<rparr>"
        have own: "fdw_xact fdw_part1 = Some p" by (simp add: F(4))
        have res: "snd (snd (prepare_loop b s (fdw_part # rest))) =
                   snd (snd (prepare_loop b s3 rest))"
          using Inr ins fx ok own
          by (simp add: fp_def [symmetric] Let_def st_def [symmetric] s2_def s3_def
                split: prod.splits)
        from F(10) obtain ps' where c1: "chain_partition cap s1 ps'" by blast
        have "same_table s1 s3" by (simp add: s3_def s2_def same_table_def entry_key_def)
        from same_table_chain [OF this c1] have c3: "chain_partition cap s3 ps'" .
        note IH = Cons.IH [OF c3]
        have "prepare_run_durable ?d ?x s (snd (snd (prepare_loop b s3 rest))) \<and>
              grows s (snd (snd (prepare_loop b s3 rest)))"
        proof (rule step)
          show "history s3 = history s1 @ [EvPrepare st True]" by (simp add: s3_def s2_def)
          show "has_valid_entry s3 ?k"
            using key1 F(9)
            by (auto simp: has_valid_entry_def list_ex_iff F(5) s3_def s2_def entry_key_def)
          show "insert_flushed s3 ?k" using w1 by (simp add: s3_def s2_def insert_flushed_def)
          show "grows s1 s3"
            by (simp add: grows_def entry_kept_def s3_def s2_def entry_key_def
                  state_of_entry_def)
          show "grows s3 (snd (snd (prepare_loop b s3 rest)))" using IH by simp
          show "prepare_run_durable ?d ?x s3 (snd (snd (prepare_loop b s3 rest)))"
            using IH by simp
        qed
        then show ?thesis by (simp only: res)
      qed
    qed
  qed
qed

subsection \<open>The resolver removes an entry only after a successful resolution\<close>

lemma entry_kept_refl: "p \<in> set (fdw_xacts s) \<Longrightarrow> entry_kept s s p"
  by (simp add: entry_kept_def)

lemma entry_kept_trans: "entry_kept s s1 p \<Longrightarrow> entry_kept s1 s2 p \<Longrightarrow> entry_kept s s2 p"
  by (simp add: entry_kept_def)

lemma entry_kept_same:
  assumes "p \<in> set (fdw_xacts s)" "fdw_xacts s' = fdw_xacts s"
    "entry_key (pool s' p) = entry_key (pool s p)" "valid (pool s' p) = valid (pool s p)"
    "state_of_entry (pool s' p) = state_of_entry (pool s p)"
  shows "entry_kept s s' p"
  using assms by (simp add: entry_kept_def)

lemma resolve_step_ERROR:
  assumes da: "distinct (fdw_xacts s)" and p: "p \<in> set (fdw_xacts s)"
  shows "\<exists>evs. history (snd (FdwXactResolveForeignTransaction env s state q ERROR)) =
                 history s @ evs \<and>
               distinct (fdw_xacts (snd (FdwXactResolveForeignTransaction env s state q ERROR))) \<and>
               (entry_kept s (snd (FdwXactResolveForeignTransaction env s state q ERROR)) p \<or>
                p = q \<and> (\<exists>c. EvResolve state c True \<in> set evs))"
proof -
  let ?s' = "snd (FdwXactResolveForeignTransaction env s state q ERROR)"
  obtain r s1 where d: "resolve_decide env s q = (r, s1)"
    by (cases "resolve_decide env s q")
  have h1: "history s1 = history s" using resolve_decide_history [of env s q] by (simp add: d)
  have a1: "fdw_xacts s1 = fdw_xacts s"
    using resolve_decide_same [of s env q] by (simp add: d same_table_def)
  have k1: "entry_kept s s1 p"
    using p d
    by (auto simp: resolve_decide_def Let_def entry_kept_def entry_key_def state_of_entry_def
             split: if_splits)
  show ?thesis
  proof (cases r)
    case (Inl e)
    then have "?s' = s1" using d by (simp add: FdwXactResolveForeignTransaction_snd)
    with h1 a1 k1 da show ?thesis by simp
  next
    case (Inr c)
    define ret where
      "ret = ResolveForeignTransaction (GetFdwRoutine env (serverid (pool s1 q))) state c"
    define s2 where "s2 = s1\<lparr>history := history s1 @ [EvResolve state c ret]\<rparr>"
    define s3 where
      "s3 = (if ondisk (pool s2 q)
             then RemoveFdwXactFile s2 (dbid (pool s2 q)) (local_xid (pool s2 q))
                    (serverid (pool s2 q)) (userid (pool s2 q))
             else s2)"
    have res: "?s' = (if \<not> ret then s2 else snd (remove_fdw_xact s3 q))"
      using d Inr
      by (simp add: FdwXactResolveForeignTransaction_snd Let_def ret_def s2_def s3_def)
    have h2: "history s2 = history s @ [EvResolve state c ret]" by (simp add: s2_def h1)
    have k2: "entry_kept s s2 p" using k1 by (simp add: s2_def entry_kept_def)
    have a2: "fdw_xacts s2 = fdw_xacts s" by (simp add: s2_def a1)
    obtain u where h3: "history s3 = history s @ EvResolve state c ret # u"
      by (cases "ondisk (pool s2 q)") (simp_all add: s3_def RemoveFdwXactFile_def h2)
    have a3: "fdw_xacts s3 = fdw_xacts s" by (simp add: s3_def RemoveFdwXactFile_def a2)
    have p3: "pool s3 = pool s2" by (simp add: s3_def RemoveFdwXactFile_def)
    have k3: "entry_kept s s3 p" using k2 by (simp add: entry_kept_def a3 a2 p3)
    show ?thesis
    proof (cases ret)
      case False
      with res h2 a2 k2 da show ?thesis by simp
    next
      case True
      obtain rr s4 where rm: "remove_fdw_xact s3 q = (rr, s4)"
        by (cases "remove_fdw_xact s3 q")
      have s4: "?s' = s4" using res True rm by simp
      show ?thesis
      proof (cases rr)
        case (Inl e)
        with rm have "s4 = s3" by (simp add: remove_fdw_xact_error)
        with s4 h3 a3 k3 da show ?thesis by simp
      next
        case (Inr v)
        note f = remove_fdw_xact_success [OF rm [unfolded Inr]]
        have da3: "distinct (fdw_xacts s3)" using da by (simp add: a3)
        note st = remove_fdw_xact_set [OF da3 rm [unfolded Inr]]
        obtain w where h4: "history s4 = history s3 @ w"
          using remove_fdw_xact_history [of s3 q] by (auto simp: rm)
        have hist: "history s4 = history s @ (EvResolve state c True # u @ w)"
          using h4 h3 True by simp
        have "entry_kept s s4 p \<or> p = q"
        proof (cases "p = q")
          case True
          then show ?thesis by simp
        next
          case False
          then have "pool s4 p = pool s3 p" by (simp add: f(4))
          moreover have "p \<in> set (fdw_xacts s4)" using st(1) False p by (simp add: a3)
          ultimately have "entry_kept s3 s4 p" by (simp add: entry_kept_def)
          with k3 show ?thesis by (blast intro: entry_kept_trans)
        qed
        moreover have "EvResolve state c True \<in> set (EvResolve state c True # u @ w)" by simp
        ultimately show ?thesis using hist st(2) unfolding s4 by blast
      qed
    qed
  qed
qed

lemma history_append_new_events:
  "history s' = history s @ evs \<Longrightarrow> new_events s s' = evs"
  by (simp add: new_events_def)

lemma resolve_step_history:
  "\<exists>evs. history (snd (FdwXactResolveForeignTransaction env s state q lev)) = history s @ evs"
proof -
  obtain r s1 where d: "resolve_decide env s q = (r, s1)"
    by (cases "resolve_decide env s q")
  show ?thesis
  proof (cases r)
    case (Inl e)
    have "history s1 = history s" using resolve_decide_history [of env s q] by (simp add: d)
    with d Inl show ?thesis by (simp add: FdwXactResolveForeignTransaction_snd)
  next
    case (Inr c)
    from FdwXactResolveForeignTransaction_history [OF d [unfolded Inr], of state lev]
    show ?thesis by auto
  qed
qed

lemma resolve_loop_history:
  "\<exists>evs. history (snd (resolve_loop env s qs)) = history s @ evs"
proof (induction qs arbitrary: s)
  case Nil
  show ?case by simp
next
  case (Cons q rest)
  obtain r s1 where f:
    "FdwXactResolveForeignTransaction env s (state_of_entry (pool s q)) q ERROR = (r, s1)"
    by (cases "FdwXactResolveForeignTransaction env s (state_of_entry (pool s q)) q ERROR")
  from resolve_step_history [of env s "state_of_entry (pool s q)" q ERROR]
  obtain evs where h1: "history s1 = history s @ evs" by (auto simp: f)
  from Cons.IH [of s1] obtain evs2 where
    "history (snd (resolve_loop env s1 rest)) = history s1 @ evs2" by blast
  with h1 f show ?case by (cases r) simp_all
qed

lemma resolve_loop_keeps_or_resolves:
  assumes "distinct (fdw_xacts s)" "p \<in> set (fdw_xacts s)"
  shows "entry_kept s (snd (resolve_loop env s qs)) p \<or>
         (\<exists>c. EvResolve (state_of_entry (pool s p)) c True \<in>
                set (new_events s (snd (resolve_loop env s qs))))"
  using assms
proof (induction qs arbitrary: s)
  case Nil
  then show ?case by (simp add: entry_kept_refl)
next
  case (Cons q rest)
  let ?st = "state_of_entry (pool s q)"
  obtain r s1 where f: "FdwXactResolveForeignTransaction env s ?st q ERROR = (r, s1)"
    by (cases "FdwXactResolveForeignTransaction env s ?st q ERROR")
  from resolve_step_ERROR [OF Cons.prems, of env ?st q]
  obtain evs where h1: "history s1 = history s @ evs" and d1: "distinct (fdw_xacts s1)"
    and k1: "entry_kept s s1 p \<or> p = q \<and> (\<exists>c. EvResolve ?st c True \<in> set evs)"
    by (auto simp: f)
  have ne1: "new_events s s1 = evs" using h1 by (rule history_append_new_events)
  show ?case
  proof (cases r)
    case (Inl e)
    then have "snd (resolve_loop env s (q # rest)) = s1" by (simp add: f)
    with k1 ne1 show ?thesis by auto
  next
    case (Inr v)
    let ?s' = "snd (resolve_loop env s1 rest)"
    have res: "snd (resolve_loop env s (q # rest)) = ?s'" by (simp add: f Inr)
    obtain evs2 where h2: "history ?s' = history s1 @ evs2"
      using resolve_loop_history by blast
    have ne2: "new_events s1 ?s' = evs2" using h2 by (rule history_append_new_events)
    have "history ?s' = history s @ (evs @ evs2)" using h1 h2 by simp
    then have ne: "new_events s ?s' = evs @ evs2" by (rule history_append_new_events)
    from k1 show ?thesis
    proof
      assume kept: "entry_kept s s1 p"
      then have "p \<in> set (fdw_xacts s1)"
        and se: "state_of_entry (pool s1 p) = state_of_entry (pool s p)"
        by (simp_all add: entry_kept_def)
      from Cons.IH [OF d1 this(1)]
      have "entry_kept s1 ?s' p \<or>
            (\<exists>c. EvResolve (state_of_entry (pool s p)) c True \<in> set evs2)"
        by (simp add: ne2 se)
      with kept show ?thesis unfolding res ne by (auto intro: entry_kept_trans)
    next
      assume "p = q \<and> (\<exists>c. EvResolve ?st c True \<in> set evs)"
      then show ?thesis unfolding res ne by auto
    qed
  qed
qed

subsection \<open>Pre-commit as a whole\<close>

text \<open>\<open>quiet s s'\<close> steps: only one-phase commit calls were added to the history.\<close>

lemma only_commits_append: "only_commits (xs @ ys) = (only_commits xs \<and> only_commits ys)"
  by (induction xs rule: only_commits.induct) simp_all

lemma only_commits_persisted:
  "only_commits cs \<Longrightarrow> persisted_before_prepare d x (cs @ evs) = persisted_before_prepare d x evs"
  by (induction cs rule: only_commits.induct) simp_all

lemma only_commits_no_prepare: "only_commits cs \<Longrightarrow> EvPrepare st ok \<notin> set cs"
  by (induction cs rule: only_commits.induct) simp_all

lemma commits_onlyI:
  "only_commits cs \<Longrightarrow> s' = s\<lparr>history := history s @ cs\<rparr> \<Longrightarrow> commits_only s s'"
  by (simp add: commits_only_def new_events_def)

lemma commits_onlyD:
  "commits_only s s' \<Longrightarrow> \<exists>cs. only_commits cs \<and> s' = s\<lparr>history := history s @ cs\<rparr>"
  unfolding commits_only_def by blast

lemma commits_only_refl: "commits_only s s"
  by (rule commits_onlyI [of "[]"]) simp_all

lemma commits_only_trans:
  assumes "commits_only s s1" "commits_only s1 s2"
  shows "commits_only s s2"
proof -
  from commits_onlyD [OF assms(1)] obtain c1 where
    c1: "only_commits c1" "s1 = s\<lparr>history := history s @ c1\<rparr>" by blast
  from commits_onlyD [OF assms(2)] obtain c2 where
    c2: "only_commits c2" "s2 = s1\<lparr>history := history s1 @ c2\<rparr>" by blast
  have "only_commits (c1 @ c2)" using c1(1) c2(1) by (simp add: only_commits_append)
  moreover have "s2 = s\<lparr>history := history s @ (c1 @ c2)\<rparr>"
    unfolding c2(2) c1(2) by simp
  ultimately show ?thesis by (rule commits_onlyI)
qed

lemma FdwXactCommitForeignTransaction_quiet:
  "commits_only s (snd (FdwXactCommitForeignTransaction s fdw_part))"
proof -
  define st where "st = \<lparr>st_serverid = server_serverid fdw_part,
                   st_userid = usermapping_userid fdw_part,
                   st_umid = usermapping_umid fdw_part, st_fdwxact_id = None\<rparr>"
  have "snd (FdwXactCommitForeignTransaction s fdw_part) =
        s\<lparr>history := history s @ [EvCommit st (commit_foreign_xact fdw_part st)]\<rparr>"
    by (simp add: FdwXactCommitForeignTransaction_def Let_def st_def)
  moreover have "only_commits [EvCommit st (commit_foreign_xact fdw_part st)]" by simp
  ultimately show ?thesis by (rule commits_onlyI [rotated])
qed

lemma commit_loop_quiet: "commits_only s (snd (snd (commit_loop need level s ps)))"
proof (induction ps arbitrary: s)
  case Nil
  show ?case by (simp add: commits_only_refl)
next
  case (Cons fdw_part rest)
  obtain r s1 where c: "FdwXactCommitForeignTransaction s fdw_part = (r, s1)"
    by (cases "FdwXactCommitForeignTransaction s fdw_part")
  have s1: "commits_only s s1"
    using FdwXactCommitForeignTransaction_quiet [of s fdw_part] by (simp add: c)
  have "commits_only s (snd (snd (commit_loop need level s1 rest)))"
    using s1 Cons.IH [of s1] by (rule commits_only_trans)
  then show ?case
    using Cons.IH [of s] c s1
    by (cases r) (auto simp: Let_def split: prod.splits)
qed

lemma quiet_durable:
  assumes "only_commits cs"
  shows "prepare_run_durable d x s (s\<lparr>history := history s @ cs\<rparr>)"
    and "grows s (s\<lparr>history := history s @ cs\<rparr>)"
proof -
  have "new_events s (s\<lparr>history := history s @ cs\<rparr>) = cs" by (simp add: new_events_def)
  moreover have "persisted_before_prepare d x cs"
    using only_commits_persisted [OF assms, of d x "[]"] by simp
  ultimately show "prepare_run_durable d x s (s\<lparr>history := history s @ cs\<rparr>)"
    using only_commits_no_prepare [OF assms] by (simp add: prepare_run_durable_def)
  show "grows s (s\<lparr>history := history s @ cs\<rparr>)" by (simp add: grows_def entry_kept_def)
qed

lemma quiet_then_durable:
  assumes c: "only_commits cs" and d: "prepare_run_durable d x (s\<lparr>history := history s @ cs\<rparr>) s'"
    and g: "grows (s\<lparr>history := history s @ cs\<rparr>) s'"
  shows "prepare_run_durable d x s s'" and "grows s s'"
proof -
  let ?s1 = "s\<lparr>history := history s @ cs\<rparr>"
  define evs where "evs = new_events ?s1 s'"
  from d have h: "history s' = history ?s1 @ evs"
    and p: "persisted_before_prepare d x evs"
    and v: "\<forall>st ok. EvPrepare st ok \<in> set evs \<longrightarrow>
         has_valid_entry s' (d, x, st_serverid st, st_userid st) \<and>
         insert_flushed s' (d, x, st_serverid st, st_userid st)"
    by (simp_all add: prepare_run_durable_def evs_def)
  have hs: "history s' = history s @ (cs @ evs)" using h by simp
  then have ne: "new_events s s' = cs @ evs" by (rule history_append_new_events)
  have "persisted_before_prepare d x (cs @ evs)"
    using p by (simp add: only_commits_persisted [OF c])
  then show "prepare_run_durable d x s s'"
    using v hs only_commits_no_prepare [OF c] by (auto simp: prepare_run_durable_def ne)
  have "grows s ?s1" by (rule quiet_durable(2) [OF c])
  then show "grows s s'" using g by (rule grows_trans)
qed

lemma FdwXactAtomicCommitRequired_ids:
  "MyDatabaseId (snd (FdwXactAtomicCommitRequired b)) = MyDatabaseId b \<and>
   TopTransactionId (snd (FdwXactAtomicCommitRequired b)) = TopTransactionId b"
  by (simp add: FdwXactAtomicCommitRequired_def Let_def split: prod.splits)

lemma FdwXactPrepareForeignTransactions_durable:
  assumes "chain_partition cap s ps0"
  shows "prepare_run_durable (MyDatabaseId b) (TopTransactionId b) s
           (snd (snd (FdwXactPrepareForeignTransactions b s)))"
    and "grows s (snd (snd (FdwXactPrepareForeignTransactions b s)))"
proof -
  have "snd (snd (FdwXactPrepareForeignTransactions b s)) = s \<or>
        snd (snd (FdwXactPrepareForeignTransactions b s)) =
          snd (snd (prepare_loop b s (FdwXactAtomicCommitParticipants b)))"
    by (auto simp: FdwXactPrepareForeignTransactions_def split: prod.splits)
  then show "prepare_run_durable (MyDatabaseId b) (TopTransactionId b) s
           (snd (snd (FdwXactPrepareForeignTransactions b s)))"
    and "grows s (snd (snd (FdwXactPrepareForeignTransactions b s)))"
    using prepare_loop_durable [OF assms, of b "FdwXactAtomicCommitParticipants b"]
    by (auto simp: prepare_run_durable_refl grows_refl)
qed

lemma PreCommit_FdwXacts_durable:
  assumes c: "chain_partition cap s ps0"
  shows "prepare_run_durable (MyDatabaseId b) (TopTransactionId b) s
           (snd (snd (PreCommit_FdwXacts b s)))"
    and "grows s (snd (snd (PreCommit_FdwXacts b s)))"
proof -
  let ?d = "MyDatabaseId b" and ?x = "TopTransactionId b"
  let ?goal = "\<lambda>s'. prepare_run_durable ?d ?x s s' \<and> grows s s'"
  have "?goal (snd (snd (PreCommit_FdwXacts b s)))"
  proof (cases "FdwXactAtomicCommitParticipants b = []")
    case True
    then show ?thesis by (simp add: PreCommit_FdwXacts_def prepare_run_durable_refl grows_refl)
  next
    case False
    obtain need b1 where req: "FdwXactAtomicCommitRequired b = (need, b1)"
      by (cases "FdwXactAtomicCommitRequired b")
    have ids: "MyDatabaseId b1 = ?d" "TopTransactionId b1 = ?x"
      using FdwXactAtomicCommitRequired_ids [of b] by (simp_all add: req)
    obtain r ps s1 where cl:
      "commit_loop need (distributed_atomic_commit b1) s (FdwXactAtomicCommitParticipants b1) =
         (r, ps, s1)"
      by (cases "commit_loop need (distributed_atomic_commit b1) s
                   (FdwXactAtomicCommitParticipants b1)")
    have "commits_only s s1"
      using commit_loop_quiet
        [of s need "distributed_atomic_commit b1" "FdwXactAtomicCommitParticipants b1"]
      by (simp add: cl)
    from commits_onlyD [OF this]
    obtain cs where q: "only_commits cs" "s1 = s\<lparr>history := history s @ cs\<rparr>"
      by blast
    have g1: "?goal s1" unfolding q(2) using quiet_durable [OF q(1)] by blast
    have g0: "?goal s" by (simp add: prepare_run_durable_refl grows_refl)
    have g2: "?goal (snd (FdwXactCommitForeignTransaction s1 (hd ps)))"
    proof -
      have "commits_only s1 (snd (FdwXactCommitForeignTransaction s1 (hd ps)))"
        by (rule FdwXactCommitForeignTransaction_quiet)
      with \<open>commits_only s s1\<close>
      have "commits_only s (snd (FdwXactCommitForeignTransaction s1 (hd ps)))"
        by (rule commits_only_trans)
      from commits_onlyD [OF this] obtain cs2 where q2: "only_commits cs2"
        "snd (FdwXactCommitForeignTransaction s1 (hd ps)) = s\<lparr>history := history s @ cs2\<rparr>"
        by blast
      show ?thesis unfolding q2(2) using quiet_durable [OF q2(1)] by blast
    qed
    have g3: "?goal (snd (snd (FdwXactPrepareForeignTransactions
                (b1\<lparr>FdwXactAtomicCommitParticipants := ps\<rparr>) s1)))"
    proof -
      have "same_table s s1" by (simp add: q(2) same_table_def)
      from same_table_chain [OF this c] have c1: "chain_partition cap s1 ps0" .
      from FdwXactPrepareForeignTransactions_durable
        [OF c1, of "b1\<lparr>FdwXactAtomicCommitParticipants := ps\<rparr>"]
      show ?thesis
        using quiet_then_durable [OF q(1)] by (simp add: ids q(2))
    qed
    have "snd (snd (PreCommit_FdwXacts b s)) = s \<or>
          snd (snd (PreCommit_FdwXacts b s)) = s1 \<or>
          snd (snd (PreCommit_FdwXacts b s)) = snd (FdwXactCommitForeignTransaction s1 (hd ps)) \<or>
          snd (snd (PreCommit_FdwXacts b s)) =
            snd (snd (FdwXactPrepareForeignTransactions
                        (b1\<lparr>FdwXactAtomicCommitParticipants := ps\<rparr>) s1))"
      using False req cl
      by (cases r) (auto simp: PreCommit_FdwXacts_def Let_def split: prod.splits)
    with g0 g1 g2 g3 show ?thesis by metis
  qed
  then show "prepare_run_durable ?d ?x s (snd (snd (PreCommit_FdwXacts b s)))"
    and "grows s (snd (snd (PreCommit_FdwXacts b s)))"
    by simp_all
qed

subsection \<open>The prepare loop over a list in two parts\<close>

lemma prepare_loop_append:
  "prepare_loop b s (xs @ ys) =
     (case prepare_loop b s xs of
        (Inl e, xs1, s1) \<Rightarrow> (Inl e, xs1 @ ys, s1)
      | (Inr v, xs1, s1) \<Rightarrow>
          (case prepare_loop b s1 ys of (r, ys1, s2) \<Rightarrow> (r, xs1 @ ys1, s2)))"
proof (induction xs arbitrary: s)
  case Nil
  show ?case by (simp split: prod.splits)
next
  case (Cons x xs)
  show ?case
    by (simp add: Cons.IH Let_def split: sum.splits prod.splits option.splits)
qed

lemma prepare_loop_offender:
  assumes "prepare_identifier b p = Inl e" and "prepare_loop b s pre = (Inr v, pre1, s1)"
  shows "prepare_loop b s (pre @ p # rest) = (Inl e, pre1 @ p # rest, s1)"
  using assms by (simp add: prepare_loop_append)

lemma insert_fdw_xact_not_too_long:
  "fst (insert_fdw_xact m s d x sv u um ident) \<noteq> Inl (ErrIdentifierTooLong i)"
  by (simp add: insert_fdw_xact_def Let_def split: option.splits)

lemma FdwXactInsertFdwXactEntry_not_too_long:
  "fst (FdwXactInsertFdwXactEntry b s x p) \<noteq> Inl (ErrIdentifierTooLong i)"
proof (cases "fdw_xact_id_part p")
  case None
  then show ?thesis by (simp add: FdwXactInsertFdwXactEntry_def)
next
  case (Some ident)
  obtain r s0 where ins: "insert_fdw_xact (max_prepared_foreign_xacts b) s (MyDatabaseId b) x
       (server_serverid p) (usermapping_userid p) (usermapping_umid p) ident = (r, s0)"
    by (cases "insert_fdw_xact (max_prepared_foreign_xacts b) s (MyDatabaseId b) x
       (server_serverid p) (usermapping_userid p) (usermapping_umid p) ident")
  from insert_fdw_xact_not_too_long [of "max_prepared_foreign_xacts b" s "MyDatabaseId b" x
       "server_serverid p" "usermapping_userid p" "usermapping_umid p" ident i]
  have "r \<noteq> Inl (ErrIdentifierTooLong i)" by (simp add: ins)
  then show ?thesis
    by (cases r) (simp_all add: FdwXactInsertFdwXactEntry_def Some ins Let_def split: prod.splits)
qed

lemma prepare_loop_single_not_too_long:
  assumes "prepare_identifier b p = Inr ident"
  shows "fst (prepare_loop b s [p]) \<noteq> Inl (ErrIdentifierTooLong i)"
proof -
  obtain r p1 s1 where e: "FdwXactInsertFdwXactEntry b s (TopTransactionId b)
        (p\<lparr>fdw_xact_id_part := Some ident\<rparr>) = (r, p1, s1)"
    by (cases "FdwXactInsertFdwXactEntry b s (TopTransactionId b)
        (p\<lparr>fdw_xact_id_part := Some ident\<rparr>)")
  from FdwXactInsertFdwXactEntry_not_too_long
    [of b s "TopTransactionId b" "p\<lparr>fdw_xact_id_part := Some ident\<rparr>" i]
  have "r \<noteq> Inl (ErrIdentifierTooLong i)" by (simp add: e)
  then show ?thesis
    by (cases r) (simp_all add: assms e Let_def split: option.splits)
qed

subsection \<open>Where the policy error can come from\<close>











subsection \<open>After the outcome is chosen\<close>

lemma resolve_continue_failure:
  assumes d: "resolve_decide env s p =
                (Inr c, s\<lparr>pool := (pool s)(p := (pool s p)\<lparr>status := st'\<rparr>)\<rparr>)"
    and f: "\<not> ResolveForeignTransaction (GetFdwRoutine env (serverid (pool s p))) state c"
  shows "FdwXactResolveForeignTransaction env s state p ERROR =
           (Inl (ErrCouldNotResolve c (serverid (pool s p))),
            s\<lparr>pool := (pool s)(p := (pool s p)\<lparr>status := st'\<rparr>),
              history := history s @ [EvResolve state c False]\<rparr>)"
  using f by (simp add: FdwXactResolveForeignTransaction_def d Let_def)

lemma resolve_continue_success:
  assumes d: "resolve_decide env s p =
                (Inr c, s\<lparr>pool := (pool s)(p := (pool s p)\<lparr>status := st'\<rparr>)\<rparr>)"
    and t: "ResolveForeignTransaction (GetFdwRoutine env (serverid (pool s p))) state c"
    and m: "p \<in> set (fdw_xacts s)" and di: "distinct (fdw_xacts s)"
  shows "fst (FdwXactResolveForeignTransaction env s state p lev) = Inr True"
    and "set (fdw_xacts (snd (FdwXactResolveForeignTransaction env s state p lev))) =
           set (fdw_xacts s) - {p}"
    and "ondisk (pool s p) \<Longrightarrow>
           entry_key (pool s p) \<notin> files (snd (FdwXactResolveForeignTransaction env s state p lev))"
proof -
  define s2 where "s2 = s\<lparr>pool := (pool s)(p := (pool s p)\<lparr>status := st'\<rparr>),
              history := history s @ [EvResolve state c True]\<rparr>"
  define s3 where "s3 = (if ondisk (pool s p)
      then RemoveFdwXactFile s2 (dbid (pool s p)) (local_xid (pool s p)) (serverid (pool s p))
             (userid (pool s p))
      else s2)"
  have x3: "fdw_xacts s3 = fdw_xacts s"
    by (simp add: s3_def s2_def RemoveFdwXactFile_def)
  have f3: "ondisk (pool s p) \<Longrightarrow> entry_key (pool s p) \<notin> files s3"
    by (simp add: s3_def RemoveFdwXactFile_def entry_key_def)
  have "fst (remove_fdw_xact s3 p) = Inr ()"
    by (rule remove_fdw_xact_total) (simp add: x3 m)
  then obtain s4 where r: "remove_fdw_xact s3 p = (Inr (), s4)"
    by (cases "remove_fdw_xact s3 p") simp
  have e: "FdwXactResolveForeignTransaction env s state p lev = (Inr True, s4)"
  proof (cases "ondisk (pool s p)")
    case True
    with r have "remove_fdw_xact
        (RemoveFdwXactFile s2 (dbid (pool s p)) (local_xid (pool s p)) (serverid (pool s p))
           (userid (pool s p))) p = (Inr (), s4)"
      by (simp add: s3_def)
    with t True show ?thesis
      by (simp add: FdwXactResolveForeignTransaction_def d Let_def s2_def)
  next
    case False
    with r have "remove_fdw_xact s2 p = (Inr (), s4)" by (simp add: s3_def)
    with t False show ?thesis
      by (simp add: FdwXactResolveForeignTransaction_def d Let_def s2_def)
  qed
  show "fst (FdwXactResolveForeignTransaction env s state p lev) = Inr True"
    by (simp add: e)
  from di have d3: "distinct (fdw_xacts s3)" by (simp add: x3)
  from remove_fdw_xact_set(1) [OF d3 r]
  show "set (fdw_xacts (snd (FdwXactResolveForeignTransaction env s state p lev))) =
           set (fdw_xacts s) - {p}"
    by (simp add: e x3)
  from remove_fdw_xact_success(5) [OF r] f3
  show "entry_key (pool s p) \<notin> files (snd (FdwXactResolveForeignTransaction env s state p lev))"
    if "ondisk (pool s p)"
    using that by (simp add: e)
qed

section \<open>Durability of prepared foreign transactions\<close>

text \<open>
  What holds on the paths that work as their comments say. Pre-commit processing
  (\<open>PreCommit_FdwXacts\<close>, and \<open>FdwXactPrepareForeignTransactions\<close> inside it) calls the
  prepare callback of a participant only directly after the WAL INSERT record of
  that participant's entry has been flushed, and when it returns, every participant
  whose prepare callback was called has a valid entry in the shared table whose
  INSERT record is flushed; no entry that was in the table before is removed or
  changed in its key, validity or identifier, and the WAL only grows. The resolver
  loops (\<open>FdwXactResolveDistributedTransaction\<close> for a waiter, and
  \<open>FdwXactResolveAllDanglingTransactions\<close>) keep every entry of the table unless the
  resolve callback was called for that entry and returned true.
\<close>

theorem durable_before_prepare_and_through_resolver:
  "(slot_partition cap s \<longrightarrow>
      prepare_run_durable (MyDatabaseId b) (TopTransactionId b) s
        (snd (snd (PreCommit_FdwXacts b s))) \<and>
      grows s (snd (snd (PreCommit_FdwXacts b s))) \<and>
      prepare_run_durable (MyDatabaseId b) (TopTransactionId b) s
        (snd (snd (FdwXactPrepareForeignTransactions b s))) \<and>
      grows s (snd (snd (FdwXactPrepareForeignTransactions b s)))) \<and>
   (slot_partition cap t \<longrightarrow> p \<in> set (fdw_xacts t) \<longrightarrow>
      (entry_kept t (snd (resolve_waiter env t d x)) p \<or>
       (\<exists>c. EvResolve (state_of_entry (pool t p)) c True \<in>
              set (new_events t (snd (resolve_waiter env t d x))))) \<and>
      (entry_kept t (snd (FdwXactResolveAllDanglingTransactions env t d)) p \<or>
       (\<exists>c. EvResolve (state_of_entry (pool t p)) c True \<in>
              set (new_events t (snd (FdwXactResolveAllDanglingTransactions env t d))))))"
proof (intro conjI impI)
  assume "slot_partition cap s"
  then obtain ps where c: "chain_partition cap s ps" unfolding slot_partition_iff by blast
  show "prepare_run_durable (MyDatabaseId b) (TopTransactionId b) s
          (snd (snd (PreCommit_FdwXacts b s)))"
    by (rule PreCommit_FdwXacts_durable(1) [OF c])
  show "grows s (snd (snd (PreCommit_FdwXacts b s)))"
    by (rule PreCommit_FdwXacts_durable(2) [OF c])
  show "prepare_run_durable (MyDatabaseId b) (TopTransactionId b) s
          (snd (snd (FdwXactPrepareForeignTransactions b s)))"
    by (rule FdwXactPrepareForeignTransactions_durable(1) [OF c])
  show "grows s (snd (snd (FdwXactPrepareForeignTransactions b s)))"
    by (rule FdwXactPrepareForeignTransactions_durable(2) [OF c])
next
  assume sp: "slot_partition cap t" and p: "p \<in> set (fdw_xacts t)"
  from sp have dist: "distinct (fdw_xacts t)" by (rule slot_partition_distinct)
  show "entry_kept t (snd (resolve_waiter env t d x)) p \<or>
        (\<exists>c. EvResolve (state_of_entry (pool t p)) c True \<in>
               set (new_events t (snd (resolve_waiter env t d x))))"
    unfolding resolve_waiter_def by (rule resolve_loop_keeps_or_resolves [OF dist p])
  show "entry_kept t (snd (FdwXactResolveAllDanglingTransactions env t d)) p \<or>
        (\<exists>c. EvResolve (state_of_entry (pool t p)) c True \<in>
               set (new_events t (snd (FdwXactResolveAllDanglingTransactions env t d))))"
    unfolding FdwXactResolveAllDanglingTransactions_def
    by (rule resolve_loop_keeps_or_resolves [OF dist p])
qed

text \<open>
  The run of the backend that wrote locally and on server 7: the entry is in the
  table with its record flushed; a resolver whose callback fails keeps it.
\<close>

theorem durable_before_prepare_and_through_resolver_example:
  "slot_partition 8 empty_table \<and>
   prepare_run_durable 1 100 empty_table committed_table \<and>
   grows empty_table committed_table \<and>
   new_events empty_table committed_table =
     [EvXLogFlush (XLOG_FDW_XACT_INSERT 1 100 7 9 5 ''fx_ex''),
      EvPrepare \<lparr>st_serverid = 7, st_userid = 9, st_umid = 5,
                 st_fdwxact_id = Some ''fx_ex''\<rparr> True] \<and>
   has_valid_entry committed_table (1, 100, 7, 9) \<and>
   insert_flushed committed_table (1, 100, 7, 9) \<and>
   slot_partition 8 committed_table \<and> 7 \<in> set (fdw_xacts committed_table) \<and>
   entry_kept committed_table
     (snd (resolve_waiter (env_with failing_routine True False False) committed_table 1 100)) 7"
proof -
  have sp0: "slot_partition 8 empty_table" by code_simp
  have sp1: "slot_partition 8 committed_table" by code_simp
  have m: "7 \<in> set (fdw_xacts committed_table)" by code_simp
  have ids: "MyDatabaseId (backend_local_write DISTRIBUTED_ATOMIC_COMMIT_REQUIRED) = 1"
    "TopTransactionId (backend_local_write DISTRIBUTED_ATOMIC_COMMIT_REQUIRED) = 100"
    by code_simp+
  have ev: "new_events empty_table committed_table =
     [EvXLogFlush (XLOG_FDW_XACT_INSERT 1 100 7 9 5 ''fx_ex''),
      EvPrepare \<lparr>st_serverid = 7, st_userid = 9, st_umid = 5,
                 st_fdwxact_id = Some ''fx_ex''\<rparr> True]"
    by code_simp
  have st: "state_of_entry (pool committed_table 7) =
     \<lparr>st_serverid = 7, st_userid = 9, st_umid = 5, st_fdwxact_id = Some ''fx_ex''\<rparr>"
    by code_simp
  have rv: "new_events committed_table
      (snd (resolve_waiter (env_with failing_routine True False False) committed_table 1 100)) =
     [EvResolve \<lparr>st_serverid = 7, st_userid = 9, st_umid = 5,
                 st_fdwxact_id = Some ''fx_ex''\<rparr> True False]"
    by code_simp
  note a = durable_before_prepare_and_through_resolver
    [where cap = 8 and s = empty_table
       and b = "backend_local_write DISTRIBUTED_ATOMIC_COMMIT_REQUIRED"
       and t = committed_table and p = 7
       and env = "env_with failing_routine True False False" and d = 1 and x = 100,
     folded committed_table_def]
  from a sp0 have d: "prepare_run_durable 1 100 empty_table committed_table"
    and g: "grows empty_table committed_table"
    by (simp_all add: ids)
  from d have v: "has_valid_entry committed_table (1, 100, 7, 9)"
    "insert_flushed committed_table (1, 100, 7, 9)"
    unfolding prepare_run_durable_def ev by auto
  from a sp1 m have k: "entry_kept committed_table
     (snd (resolve_waiter (env_with failing_routine True False False) committed_table 1 100)) 7"
    by (simp add: st rv)
  from sp0 d g ev v sp1 m k show ?thesis by simp
qed

text \<open>
  C1, evaluated where the code departs from it. The backend that wrote locally and
  on server 7 goes through pre-commit under \<open>required\<close>: the INSERT record is flushed
  before the prepare call, the prepare callback returns true, and the entry is valid
  in the table with its record flushed. Then a superuser calls
  \<open>pg_resolve_fdw_xact\<close> for that entry while the FDW's resolve callback fails: the
  function returns false, no successful resolution is in the history, and yet the
  entry is gone from the table and a REMOVE record is flushed. In the same
  situation the resolver, which calls at level \<open>ERROR\<close>, keeps the entry.
\<close>

theorem failed_manual_resolution_loses_prepared_entry:
  "fst (PreCommit_FdwXacts (backend_local_write DISTRIBUTED_ATOMIC_COMMIT_REQUIRED)
          empty_table) = Inr () \<and>
   new_events empty_table committed_table =
     [EvXLogFlush (XLOG_FDW_XACT_INSERT 1 100 7 9 5 ''fx_ex''),
      EvPrepare \<lparr>st_serverid = 7, st_userid = 9, st_umid = 5,
                 st_fdwxact_id = Some ''fx_ex''\<rparr> True] \<and>
   has_valid_entry committed_table (1, 100, 7, 9) \<and>
   insert_flushed committed_table (1, 100, 7, 9) \<and>
   status (pool committed_table 7) = FDW_XACT_PREPARED \<and>
   fst (pg_resolve_fdw_xact True (env_with failing_routine True False False)
          (example_backend DISTRIBUTED_ATOMIC_COMMIT_REQUIRED) committed_table 100 7 9) =
     Inr False \<and>
   new_events committed_table
     (snd (pg_resolve_fdw_xact True (env_with failing_routine True False False)
             (example_backend DISTRIBUTED_ATOMIC_COMMIT_REQUIRED) committed_table 100 7 9)) =
     [EvResolve \<lparr>st_serverid = 7, st_userid = 9, st_umid = 5, st_fdwxact_id = None\<rparr>
        True False,
      EvXLogFlush (XLOG_FDW_XACT_REMOVE 1 100 7 9)] \<and>
   has_valid_entry
     (snd (pg_resolve_fdw_xact True (env_with failing_routine True False False)
             (example_backend DISTRIBUTED_ATOMIC_COMMIT_REQUIRED) committed_table 100 7 9))
     (1, 100, 7, 9) = False \<and>
   fdw_xacts
     (snd (pg_resolve_fdw_xact True (env_with failing_routine True False False)
             (example_backend DISTRIBUTED_ATOMIC_COMMIT_REQUIRED) committed_table 100 7 9)) =
     [] \<and>
   fst (resolve_waiter (env_with failing_routine True False False) committed_table 1 100) =
     Inl (ErrCouldNotResolve True 7) \<and>
   has_valid_entry
     (snd (resolve_waiter (env_with failing_routine True False False) committed_table 1 100))
     (1, 100, 7, 9)"
  by code_simp

section \<open>Choosing the outcome of a resolution\<close>

text \<open>
  C2. For an entry whose status is neither \<open>FDW_XACT_COMMITTING_PREPARED\<close> nor
  \<open>FDW_XACT_ABORTING_PREPARED\<close>, \<open>FdwXactResolveForeignTransaction\<close> takes the outcome
  from the local transaction. If it committed, the status becomes
  \<open>FDW_XACT_COMMITTING_PREPARED\<close> and the FDW's resolve callback is called with
  \<open>is_commit = true\<close>; if it did not commit and aborted, the status becomes
  \<open>FDW_XACT_ABORTING_PREPARED\<close> and the callback is called with \<open>is_commit = false\<close>;
  if it has no outcome and is not in progress, the callback is called with
  \<open>is_commit = false\<close> and the status stays. In each of these cases the call is the
  next event of the history; when the callback fails on the resolver's path (level
  \<open>ERROR\<close>) the function raises the could-not-resolve error and leaves the entry in
  the table with the status just chosen; when the callback succeeds the function
  returns true, the entry is gone from the table, and its state file is gone if it
  had one. If the local transaction has no outcome and is in progress, the function
  raises an error, calls nothing and changes nothing.
\<close>

theorem resolve_outcome_from_local_transaction:
  assumes "status (pool s p) \<noteq> FDW_XACT_COMMITTING_PREPARED"
      and "status (pool s p) \<noteq> FDW_XACT_ABORTING_PREPARED"
  shows
   "(TransactionIdDidCommit env (local_xid (pool s p)) \<longrightarrow>
       resolve_decide env s p =
         (Inr True,
          s\<lparr>pool := (pool s)(p := (pool s p)\<lparr>status := FDW_XACT_COMMITTING_PREPARED\<rparr>)\<rparr>) \<and>
       (\<exists>rest. history (snd (FdwXactResolveForeignTransaction env s state p lev)) =
          history s @
          EvResolve state True
            (ResolveForeignTransaction (GetFdwRoutine env (serverid (pool s p))) state True)
          # rest) \<and>
       (\<not> ResolveForeignTransaction (GetFdwRoutine env (serverid (pool s p))) state True \<longrightarrow>
          FdwXactResolveForeignTransaction env s state p ERROR =
            (Inl (ErrCouldNotResolve True (serverid (pool s p))),
             s\<lparr>pool := (pool s)(p := (pool s p)\<lparr>status := FDW_XACT_COMMITTING_PREPARED\<rparr>),
              history := history s @ [EvResolve state True False]\<rparr>)) \<and>
       (ResolveForeignTransaction (GetFdwRoutine env (serverid (pool s p))) state True \<longrightarrow>
        p \<in> set (fdw_xacts s) \<longrightarrow> distinct (fdw_xacts s) \<longrightarrow>
          fst (FdwXactResolveForeignTransaction env s state p lev) = Inr True \<and>
          set (fdw_xacts (snd (FdwXactResolveForeignTransaction env s state p lev))) =
            set (fdw_xacts s) - {p} \<and>
          (ondisk (pool s p) \<longrightarrow>
             entry_key (pool s p) \<notin>
               files (snd (FdwXactResolveForeignTransaction env s state p lev))))) \<and>
    (\<not> TransactionIdDidCommit env (local_xid (pool s p)) \<and>
     TransactionIdDidAbort env (local_xid (pool s p)) \<longrightarrow>
       resolve_decide env s p =
         (Inr False,
          s\<lparr>pool := (pool s)(p := (pool s p)\<lparr>status := FDW_XACT_ABORTING_PREPARED\<rparr>)\<rparr>) \<and>
       (\<exists>rest. history (snd (FdwXactResolveForeignTransaction env s state p lev)) =
          history s @
          EvResolve state False
            (ResolveForeignTransaction (GetFdwRoutine env (serverid (pool s p))) state False)
          # rest) \<and>
       (\<not> ResolveForeignTransaction (GetFdwRoutine env (serverid (pool s p))) state False \<longrightarrow>
          FdwXactResolveForeignTransaction env s state p ERROR =
            (Inl (ErrCouldNotResolve False (serverid (pool s p))),
             s\<lparr>pool := (pool s)(p := (pool s p)\<lparr>status := FDW_XACT_ABORTING_PREPARED\<rparr>),
              history := history s @ [EvResolve state False False]\<rparr>)) \<and>
       (ResolveForeignTransaction (GetFdwRoutine env (serverid (pool s p))) state False \<longrightarrow>
        p \<in> set (fdw_xacts s) \<longrightarrow> distinct (fdw_xacts s) \<longrightarrow>
          fst (FdwXactResolveForeignTransaction env s state p lev) = Inr True \<and>
          set (fdw_xacts (snd (FdwXactResolveForeignTransaction env s state p lev))) =
            set (fdw_xacts s) - {p} \<and>
          (ondisk (pool s p) \<longrightarrow>
             entry_key (pool s p) \<notin>
               files (snd (FdwXactResolveForeignTransaction env s state p lev))))) \<and>
    (\<not> TransactionIdDidCommit env (local_xid (pool s p)) \<and>
     \<not> TransactionIdDidAbort env (local_xid (pool s p)) \<and>
     \<not> TransactionIdIsInProgress env (local_xid (pool s p)) \<longrightarrow>
       resolve_decide env s p =
         (Inr False,
          s) \<and>
       (\<exists>rest. history (snd (FdwXactResolveForeignTransaction env s state p lev)) =
          history s @
          EvResolve state False
            (ResolveForeignTransaction (GetFdwRoutine env (serverid (pool s p))) state False)
          # rest) \<and>
       (\<not> ResolveForeignTransaction (GetFdwRoutine env (serverid (pool s p))) state False \<longrightarrow>
          FdwXactResolveForeignTransaction env s state p ERROR =
            (Inl (ErrCouldNotResolve False (serverid (pool s p))),
             s\<lparr>history := history s @ [EvResolve state False False]\<rparr>)) \<and>
       (ResolveForeignTransaction (GetFdwRoutine env (serverid (pool s p))) state False \<longrightarrow>
        p \<in> set (fdw_xacts s) \<longrightarrow> distinct (fdw_xacts s) \<longrightarrow>
          fst (FdwXactResolveForeignTransaction env s state p lev) = Inr True \<and>
          set (fdw_xacts (snd (FdwXactResolveForeignTransaction env s state p lev))) =
            set (fdw_xacts s) - {p} \<and>
          (ondisk (pool s p) \<longrightarrow>
             entry_key (pool s p) \<notin>
               files (snd (FdwXactResolveForeignTransaction env s state p lev))))) \<and>
    (\<not> TransactionIdDidCommit env (local_xid (pool s p)) \<and>
     \<not> TransactionIdDidAbort env (local_xid (pool s p)) \<and>
     TransactionIdIsInProgress env (local_xid (pool s p)) \<longrightarrow>
       FdwXactResolveForeignTransaction env s state p lev =
         (Inl (ErrLocalTransactionInProgress (local_xid (pool s p)) (serverid (pool s p))), s))"
proof (intro conjI impI)
  assume c: "TransactionIdDidCommit env (local_xid (pool s p))"
  with assms show d: "resolve_decide env s p =
         (Inr True,
          s\<lparr>pool := (pool s)(p := (pool s p)\<lparr>status := FDW_XACT_COMMITTING_PREPARED\<rparr>)\<rparr>)"
    by (simp add: resolve_decide_def Let_def)
  then have d': "resolve_decide env s p =
      (Inr True, s\<lparr>pool := (pool s)(p := (pool s p)\<lparr>status := FDW_XACT_COMMITTING_PREPARED\<rparr>)\<rparr>)"
    by simp
  show "\<exists>rest. history (snd (FdwXactResolveForeignTransaction env s state p lev)) =
          history s @
          EvResolve state True
            (ResolveForeignTransaction (GetFdwRoutine env (serverid (pool s p))) state True)
          # rest"
    by (rule FdwXactResolveForeignTransaction_history [OF d])
  {
    assume "\<not> ResolveForeignTransaction (GetFdwRoutine env (serverid (pool s p))) state True"
    from resolve_continue_failure [OF d' this]
    show "FdwXactResolveForeignTransaction env s state p ERROR =
            (Inl (ErrCouldNotResolve True (serverid (pool s p))),
             s\<lparr>pool := (pool s)(p := (pool s p)\<lparr>status := FDW_XACT_COMMITTING_PREPARED\<rparr>),
              history := history s @ [EvResolve state True False]\<rparr>)"
      by simp
  }
  {
    assume t: "ResolveForeignTransaction (GetFdwRoutine env (serverid (pool s p))) state True"
      and m: "p \<in> set (fdw_xacts s)" and di: "distinct (fdw_xacts s)"
    note ok = resolve_continue_success [OF d' t m di, of lev]
    show "fst (FdwXactResolveForeignTransaction env s state p lev) = Inr True"
      by (rule ok(1))
    show "set (fdw_xacts (snd (FdwXactResolveForeignTransaction env s state p lev))) =
            set (fdw_xacts s) - {p}"
      by (rule ok(2))
    {
      assume "ondisk (pool s p)"
      then show "entry_key (pool s p) \<notin>
               files (snd (FdwXactResolveForeignTransaction env s state p lev))"
        by (rule ok(3))
    }
  }
next
  assume c: "\<not> TransactionIdDidCommit env (local_xid (pool s p)) \<and>
             TransactionIdDidAbort env (local_xid (pool s p))"
  with assms show d: "resolve_decide env s p =
         (Inr False,
          s\<lparr>pool := (pool s)(p := (pool s p)\<lparr>status := FDW_XACT_ABORTING_PREPARED\<rparr>)\<rparr>)"
    by (simp add: resolve_decide_def Let_def)
  then have d': "resolve_decide env s p =
      (Inr False, s\<lparr>pool := (pool s)(p := (pool s p)\<lparr>status := FDW_XACT_ABORTING_PREPARED\<rparr>)\<rparr>)"
    by simp
  show "\<exists>rest. history (snd (FdwXactResolveForeignTransaction env s state p lev)) =
          history s @
          EvResolve state False
            (ResolveForeignTransaction (GetFdwRoutine env (serverid (pool s p))) state False)
          # rest"
    by (rule FdwXactResolveForeignTransaction_history [OF d])
  {
    assume "\<not> ResolveForeignTransaction (GetFdwRoutine env (serverid (pool s p))) state False"
    from resolve_continue_failure [OF d' this]
    show "FdwXactResolveForeignTransaction env s state p ERROR =
            (Inl (ErrCouldNotResolve False (serverid (pool s p))),
             s\<lparr>pool := (pool s)(p := (pool s p)\<lparr>status := FDW_XACT_ABORTING_PREPARED\<rparr>),
              history := history s @ [EvResolve state False False]\<rparr>)"
      by simp
  }
  {
    assume t: "ResolveForeignTransaction (GetFdwRoutine env (serverid (pool s p))) state False"
      and m: "p \<in> set (fdw_xacts s)" and di: "distinct (fdw_xacts s)"
    note ok = resolve_continue_success [OF d' t m di, of lev]
    show "fst (FdwXactResolveForeignTransaction env s state p lev) = Inr True"
      by (rule ok(1))
    show "set (fdw_xacts (snd (FdwXactResolveForeignTransaction env s state p lev))) =
            set (fdw_xacts s) - {p}"
      by (rule ok(2))
    {
      assume "ondisk (pool s p)"
      then show "entry_key (pool s p) \<notin>
               files (snd (FdwXactResolveForeignTransaction env s state p lev))"
        by (rule ok(3))
    }
  }
next
  assume c: "\<not> TransactionIdDidCommit env (local_xid (pool s p)) \<and>
             \<not> TransactionIdDidAbort env (local_xid (pool s p)) \<and>
             \<not> TransactionIdIsInProgress env (local_xid (pool s p))"
  with assms show d: "resolve_decide env s p =
         (Inr False,
          s)"
    by (simp add: resolve_decide_def Let_def)
  then have d': "resolve_decide env s p =
      (Inr False, s\<lparr>pool := (pool s)(p := (pool s p)\<lparr>status := status (pool s p)\<rparr>)\<rparr>)"
    by simp
  show "\<exists>rest. history (snd (FdwXactResolveForeignTransaction env s state p lev)) =
          history s @
          EvResolve state False
            (ResolveForeignTransaction (GetFdwRoutine env (serverid (pool s p))) state False)
          # rest"
    by (rule FdwXactResolveForeignTransaction_history [OF d])
  {
    assume "\<not> ResolveForeignTransaction (GetFdwRoutine env (serverid (pool s p))) state False"
    from resolve_continue_failure [OF d' this]
    show "FdwXactResolveForeignTransaction env s state p ERROR =
            (Inl (ErrCouldNotResolve False (serverid (pool s p))),
             s\<lparr>history := history s @ [EvResolve state False False]\<rparr>)"
      by simp
  }
  {
    assume t: "ResolveForeignTransaction (GetFdwRoutine env (serverid (pool s p))) state False"
      and m: "p \<in> set (fdw_xacts s)" and di: "distinct (fdw_xacts s)"
    note ok = resolve_continue_success [OF d' t m di, of lev]
    show "fst (FdwXactResolveForeignTransaction env s state p lev) = Inr True"
      by (rule ok(1))
    show "set (fdw_xacts (snd (FdwXactResolveForeignTransaction env s state p lev))) =
            set (fdw_xacts s) - {p}"
      by (rule ok(2))
    {
      assume "ondisk (pool s p)"
      then show "entry_key (pool s p) \<notin>
               files (snd (FdwXactResolveForeignTransaction env s state p lev))"
        by (rule ok(3))
    }
  }
next
  assume c: "\<not> TransactionIdDidCommit env (local_xid (pool s p)) \<and>
             \<not> TransactionIdDidAbort env (local_xid (pool s p)) \<and>
             TransactionIdIsInProgress env (local_xid (pool s p))"
  with assms have "resolve_decide env s p =
     (Inl (ErrLocalTransactionInProgress (local_xid (pool s p)) (serverid (pool s p))), s)"
    by (simp add: resolve_decide_def Let_def)
  then show "FdwXactResolveForeignTransaction env s state p lev =
         (Inl (ErrLocalTransactionInProgress (local_xid (pool s p)) (serverid (pool s p))), s)"
    by (simp add: FdwXactResolveForeignTransaction_def)
qed

text \<open>
  On the table with the prepared entry of server 7: the four outcomes, a failing
  callback on the resolver's path, and a succeeding one.
\<close>

theorem resolve_outcome_from_local_transaction_witness:
  "status (pool prepared_table 7) = FDW_XACT_PREPARED \<and>
   resolve_decide (env_with example_routine True False False) prepared_table 7 =
     (Inr True,
      prepared_table\<lparr>pool := (pool prepared_table)
        (7 := (pool prepared_table 7)\<lparr>status := FDW_XACT_COMMITTING_PREPARED\<rparr>)\<rparr>) \<and>
   resolve_decide (env_with example_routine False True False) prepared_table 7 =
     (Inr False,
      prepared_table\<lparr>pool := (pool prepared_table)
        (7 := (pool prepared_table 7)\<lparr>status := FDW_XACT_ABORTING_PREPARED\<rparr>)\<rparr>) \<and>
   resolve_decide (env_with example_routine False False False) prepared_table 7 =
     (Inr False, prepared_table) \<and>
   FdwXactResolveForeignTransaction (env_with example_routine False False True) prepared_table
     (state_of_entry (pool prepared_table 7)) 7 ERROR =
     (Inl (ErrLocalTransactionInProgress 100 7), prepared_table) \<and>
   FdwXactResolveForeignTransaction (env_with failing_routine True False False) prepared_table
     (state_of_entry (pool prepared_table 7)) 7 ERROR =
     (Inl (ErrCouldNotResolve True 7),
      prepared_table\<lparr>pool := (pool prepared_table)
        (7 := (pool prepared_table 7)\<lparr>status := FDW_XACT_COMMITTING_PREPARED\<rparr>),
        history := history prepared_table @
          [EvResolve (state_of_entry (pool prepared_table 7)) True False]\<rparr>) \<and>
   FdwXactResolveForeignTransaction (env_with failing_routine False True False) prepared_table
     (state_of_entry (pool prepared_table 7)) 7 ERROR =
     (Inl (ErrCouldNotResolve False 7),
      prepared_table\<lparr>pool := (pool prepared_table)
        (7 := (pool prepared_table 7)\<lparr>status := FDW_XACT_ABORTING_PREPARED\<rparr>),
        history := history prepared_table @
          [EvResolve (state_of_entry (pool prepared_table 7)) False False]\<rparr>) \<and>
   fdw_xacts prepared_table = [7] \<and>
   fst (FdwXactResolveForeignTransaction (env_with example_routine True False False)
          prepared_table (state_of_entry (pool prepared_table 7)) 7 ERROR) = Inr True \<and>
   set (fdw_xacts (snd (FdwXactResolveForeignTransaction
          (env_with example_routine True False False)
          prepared_table (state_of_entry (pool prepared_table 7)) 7 ERROR))) = {}"
proof -
  have st: "status (pool prepared_table 7) = FDW_XACT_PREPARED" by code_simp
  then have h1: "status (pool prepared_table 7) \<noteq> FDW_XACT_COMMITTING_PREPARED"
    and h2: "status (pool prepared_table 7) \<noteq> FDW_XACT_ABORTING_PREPARED"
    by simp_all
  have x: "local_xid (pool prepared_table 7) = 100" by code_simp
  have v: "serverid (pool prepared_table 7) = 7" by code_simp
  have l: "fdw_xacts prepared_table = [7]" by code_simp
  note t = resolve_outcome_from_local_transaction [OF h1 h2]
  from t [of "env_with example_routine True False False"]
  have a: "resolve_decide (env_with example_routine True False False) prepared_table 7 =
     (Inr True,
      prepared_table\<lparr>pool := (pool prepared_table)
        (7 := (pool prepared_table 7)\<lparr>status := FDW_XACT_COMMITTING_PREPARED\<rparr>)\<rparr>)"
    by (simp add: env_with_def)
  from t [of "env_with example_routine False True False"]
  have b: "resolve_decide (env_with example_routine False True False) prepared_table 7 =
     (Inr False,
      prepared_table\<lparr>pool := (pool prepared_table)
        (7 := (pool prepared_table 7)\<lparr>status := FDW_XACT_ABORTING_PREPARED\<rparr>)\<rparr>)"
    by (simp add: env_with_def)
  from t [of "env_with example_routine False False False"]
  have c: "resolve_decide (env_with example_routine False False False) prepared_table 7 =
     (Inr False, prepared_table)"
    by (simp add: env_with_def)
  from t [of "env_with example_routine False False True"
             "state_of_entry (pool prepared_table 7)" ERROR]
  have d: "FdwXactResolveForeignTransaction (env_with example_routine False False True)
     prepared_table (state_of_entry (pool prepared_table 7)) 7 ERROR =
     (Inl (ErrLocalTransactionInProgress 100 7), prepared_table)"
    by (simp add: env_with_def x v)
  from t [of "env_with failing_routine True False False"
             "state_of_entry (pool prepared_table 7)" ERROR]
  have e: "FdwXactResolveForeignTransaction (env_with failing_routine True False False)
     prepared_table (state_of_entry (pool prepared_table 7)) 7 ERROR =
     (Inl (ErrCouldNotResolve True 7),
      prepared_table\<lparr>pool := (pool prepared_table)
        (7 := (pool prepared_table 7)\<lparr>status := FDW_XACT_COMMITTING_PREPARED\<rparr>),
        history := history prepared_table @
          [EvResolve (state_of_entry (pool prepared_table 7)) True False]\<rparr>)"
    by (simp add: env_with_def failing_routine_def v)
  from t [of "env_with failing_routine False True False"
             "state_of_entry (pool prepared_table 7)" ERROR]
  have f: "FdwXactResolveForeignTransaction (env_with failing_routine False True False)
     prepared_table (state_of_entry (pool prepared_table 7)) 7 ERROR =
     (Inl (ErrCouldNotResolve False 7),
      prepared_table\<lparr>pool := (pool prepared_table)
        (7 := (pool prepared_table 7)\<lparr>status := FDW_XACT_ABORTING_PREPARED\<rparr>),
        history := history prepared_table @
          [EvResolve (state_of_entry (pool prepared_table 7)) False False]\<rparr>)"
    by (simp add: env_with_def failing_routine_def v)
  from t [of "env_with example_routine True False False"
             "state_of_entry (pool prepared_table 7)" ERROR]
  have g: "fst (FdwXactResolveForeignTransaction (env_with example_routine True False False)
          prepared_table (state_of_entry (pool prepared_table 7)) 7 ERROR) = Inr True"
    and h: "set (fdw_xacts (snd (FdwXactResolveForeignTransaction
          (env_with example_routine True False False)
          prepared_table (state_of_entry (pool prepared_table 7)) 7 ERROR))) = {}"
    by (simp_all add: env_with_def example_routine_def l)
  from st a b c d e f l g h show ?thesis by (intro conjI)
qed

section \<open>Pre-commit under the policy required\<close>




section \<open>Pre-commit under the policy prefer\<close>

text \<open>
  C4, evaluated where the code departs from it. The policy is \<open>prefer\<close>; the
  transaction modified server 7, which is capable of two-phase commit, and server
  8, which is not, and wrote nothing locally. \<open>register_fdw_xact\<close> creates every
  participant with \<open>twophase_commit_enabled = true\<close> and
  \<open>FdwXactAtomicCommitRequired\<close> never lowers the flag, so the test
  \<open>!fdw_part->twophase_commit_enabled\<close> of the commit loop fails for server 8 too.
  No participant is committed in one phase: both are inserted, logged and prepared.
\<close>

theorem prefer_prepares_incapable_server:
  "map (\<lambda>p. (server_serverid p, modified p, is_twophase_commit_enabled p (server_serverid p),
             twophase_commit_enabled p))
     (FdwXactAtomicCommitParticipants (backend_two DISTRIBUTED_ATOMIC_COMMIT_PREFER)) =
     [(7, True, True, True), (8, True, False, True)] \<and>
   MyXactFlags (backend_two DISTRIBUTED_ATOMIC_COMMIT_PREFER) = {} \<and>
   fst (PreCommit_FdwXacts (backend_two DISTRIBUTED_ATOMIC_COMMIT_PREFER) empty_table) =
     Inr () \<and>
   history (snd (snd (PreCommit_FdwXacts (backend_two DISTRIBUTED_ATOMIC_COMMIT_PREFER)
                        empty_table))) =
     [EvXLogFlush (XLOG_FDW_XACT_INSERT 1 100 7 9 5 ''fx_ex''),
      EvPrepare \<lparr>st_serverid = 7, st_userid = 9, st_umid = 5,
                 st_fdwxact_id = Some ''fx_ex''\<rparr> True,
      EvXLogFlush (XLOG_FDW_XACT_INSERT 1 100 8 9 5 ''fx_ex''),
      EvPrepare \<lparr>st_serverid = 8, st_userid = 9, st_umid = 5,
                 st_fdwxact_id = Some ''fx_ex''\<rparr> True] \<and>
   numFdwXacts (snd (snd (PreCommit_FdwXacts (backend_two DISTRIBUTED_ATOMIC_COMMIT_PREFER)
                            empty_table))) = 2"
  by code_simp

section \<open>Length of the prepare identifier\<close>

text \<open>
  C5 (as amended). When the FDW's \<open>get_prepareid\<close> callback supplies an identifier,
  the length it reports is checked against \<open>NAMEDATALEN\<close>, not against
  \<open>FDW_XACT_ID_MAX_LEN\<close>. An identifier whose reported length is not negative and
  less than \<open>NAMEDATALEN\<close> is accepted (cut at that length) and never gives the
  name-too-long error. An identifier whose reported length is greater than
  \<open>NAMEDATALEN\<close> makes the preparation fail with the name-too-long error: nothing is
  inserted, logged or prepared for that participant, and the shared state is left
  as the participants before it in the list have made it (they stay inserted,
  flushed and prepared). Nothing is said here about a reported length of exactly
  \<open>NAMEDATALEN\<close>.
\<close>

theorem prepare_id_length_check:
  assumes "get_prepareid fdw_part = Some get_id"
      and "get_id (TopTransactionId b) (server_serverid fdw_part) (usermapping_userid fdw_part) =
             Some (buf, fdwxact_id_len)"
      and "0 \<le> fdwxact_id_len"
  shows "(fdwxact_id_len < NAMEDATALEN b \<longrightarrow>
            prepare_identifier b fdw_part = Inr (take (nat fdwxact_id_len) buf) \<and>
            fst (prepare_loop b s [fdw_part]) \<noteq> Inl (ErrIdentifierTooLong i)) \<and>
         (NAMEDATALEN b < fdwxact_id_len \<longrightarrow>
            prepare_identifier b fdw_part =
              Inl (ErrIdentifierTooLong (take (nat fdwxact_id_len) buf)) \<and>
            errcode (ErrIdentifierTooLong (take (nat fdwxact_id_len) buf)) =
              ERRCODE_NAME_TOO_LONG \<and>
            prepare_loop b s (fdw_part # rest) =
              (Inl (ErrIdentifierTooLong (take (nat fdwxact_id_len) buf)), fdw_part # rest, s) \<and>
            (fst (prepare_loop b s pre) = Inr () \<longrightarrow>
               fst (prepare_loop b s (pre @ fdw_part # rest)) =
                 Inl (ErrIdentifierTooLong (take (nat fdwxact_id_len) buf)) \<and>
               snd (snd (prepare_loop b s (pre @ fdw_part # rest))) =
                 snd (snd (prepare_loop b s pre))))"
proof (intro conjI impI)
  assume lt: "fdwxact_id_len < NAMEDATALEN b"
  with assms show ok: "prepare_identifier b fdw_part = Inr (take (nat fdwxact_id_len) buf)"
    by (simp add: prepare_identifier_def Let_def)
  show "fst (prepare_loop b s [fdw_part]) \<noteq> Inl (ErrIdentifierTooLong i)"
    by (rule prepare_loop_single_not_too_long [OF ok])
next
  assume gt: "NAMEDATALEN b < fdwxact_id_len"
  with assms show bad: "prepare_identifier b fdw_part =
      Inl (ErrIdentifierTooLong (take (nat fdwxact_id_len) buf))"
    by (simp add: prepare_identifier_def Let_def)
  show "errcode (ErrIdentifierTooLong (take (nat fdwxact_id_len) buf)) = ERRCODE_NAME_TOO_LONG"
    by simp
  show "prepare_loop b s (fdw_part # rest) =
      (Inl (ErrIdentifierTooLong (take (nat fdwxact_id_len) buf)), fdw_part # rest, s)"
    by (simp add: bad)
  {
    assume "fst (prepare_loop b s pre) = Inr ()"
    then obtain pre1 s1 where p: "prepare_loop b s pre = (Inr (), pre1, s1)"
      by (cases "prepare_loop b s pre") simp
    note o = prepare_loop_offender [OF bad p, of rest]
    show "fst (prepare_loop b s (pre @ fdw_part # rest)) =
            Inl (ErrIdentifierTooLong (take (nat fdwxact_id_len) buf))"
      by (simp add: o)
    show "snd (snd (prepare_loop b s (pre @ fdw_part # rest))) =
            snd (snd (prepare_loop b s pre))"
      by (simp add: o p)
  }
qed

text \<open>
  With \<open>NAMEDATALEN = 64\<close>: an identifier of 63 letters is accepted and prepared; one
  of 65 letters is refused, and when it comes second in the list the first
  participant is already inserted, flushed and prepared.
\<close>

theorem prepare_id_length_check_witness:
  "prepare_identifier (example_backend DISTRIBUTED_ATOMIC_COMMIT_PREFER)
     (participant_with_id_length 63) = Inr (replicate 63 CHR ''a'') \<and>
   fst (prepare_loop (example_backend DISTRIBUTED_ATOMIC_COMMIT_PREFER) empty_table
          [participant_with_id_length 63]) = Inr () \<and>
   prepare_identifier (example_backend DISTRIBUTED_ATOMIC_COMMIT_PREFER)
     (participant_with_id_length 65) = Inl (ErrIdentifierTooLong (replicate 65 CHR ''a'')) \<and>
   prepare_loop (example_backend DISTRIBUTED_ATOMIC_COMMIT_PREFER) empty_table
     [participant_with_id_length 65] =
     (Inl (ErrIdentifierTooLong (replicate 65 CHR ''a'')), [participant_with_id_length 65],
      empty_table) \<and>
   fst (prepare_loop (example_backend DISTRIBUTED_ATOMIC_COMMIT_PREFER) empty_table
          [participant_with_id_length 5]) = Inr () \<and>
   fst (prepare_loop (example_backend DISTRIBUTED_ATOMIC_COMMIT_PREFER) empty_table
          [participant_with_id_length 5, participant_with_id_length 65]) =
     Inl (ErrIdentifierTooLong (replicate 65 CHR ''a'')) \<and>
   history (snd (snd (prepare_loop (example_backend DISTRIBUTED_ATOMIC_COMMIT_PREFER)
                        empty_table
                        [participant_with_id_length 5, participant_with_id_length 65]))) =
     [EvXLogFlush (XLOG_FDW_XACT_INSERT 1 100 7 9 5 ''aaaaa''),
      EvPrepare \<lparr>st_serverid = 7, st_userid = 9, st_umid = 5,
                 st_fdwxact_id = Some ''aaaaa''\<rparr> True]"
proof -
  let ?b = "example_backend DISTRIBUTED_ATOMIC_COMMIT_PREFER"
  have n: "NAMEDATALEN ?b = 64" by (simp add: example_backend_def)
  have g: "get_prepareid (participant_with_id_length k) =
           Some (\<lambda>xid sv u. Some (replicate k CHR ''a'', int k))" for k
    by (simp add: participant_with_id_length_def)
  have r63: "fst (prepare_loop ?b empty_table [participant_with_id_length 63]) = Inr ()"
    by code_simp
  have r5: "fst (prepare_loop ?b empty_table [participant_with_id_length 5]) = Inr ()"
    by code_simp
  have h5: "history (snd (snd (prepare_loop ?b empty_table [participant_with_id_length 5]))) =
     [EvXLogFlush (XLOG_FDW_XACT_INSERT 1 100 7 9 5 ''aaaaa''),
      EvPrepare \<lparr>st_serverid = 7, st_userid = 9, st_umid = 5,
                 st_fdwxact_id = Some ''aaaaa''\<rparr> True]"
    by code_simp
  from prepare_id_length_check
    [OF g [of 63], where b = ?b and buf = "replicate 63 CHR ''a''" and fdwxact_id_len = 63]
  have a: "prepare_identifier ?b (participant_with_id_length 63) = Inr (replicate 63 CHR ''a'')"
    by (simp add: n)
  from prepare_id_length_check
    [OF g [of 65], where b = ?b and buf = "replicate 65 CHR ''a''" and fdwxact_id_len = 65
       and s = empty_table and rest = "[]" and pre = "[participant_with_id_length 5]"]
  have b: "prepare_identifier ?b (participant_with_id_length 65) =
             Inl (ErrIdentifierTooLong (replicate 65 CHR ''a''))"
    and c: "prepare_loop ?b empty_table [participant_with_id_length 65] =
     (Inl (ErrIdentifierTooLong (replicate 65 CHR ''a'')), [participant_with_id_length 65],
      empty_table)"
    and d: "fst (prepare_loop ?b empty_table
                   [participant_with_id_length 5, participant_with_id_length 65]) =
            Inl (ErrIdentifierTooLong (replicate 65 CHR ''a''))"
    and e: "snd (snd (prepare_loop ?b empty_table
                   [participant_with_id_length 5, participant_with_id_length 65])) =
            snd (snd (prepare_loop ?b empty_table [participant_with_id_length 5]))"
    using r5 by (simp_all add: n)
  note h65 = h5 [folded e]
  from a r63 b c r5 d h65 show ?thesis by (intro conjI)
qed

theorem prepare_id_length_check_counterexample:
  "(100::nat) \<le> FDW_XACT_ID_MAX_LEN \<and>
   NAMEDATALEN (example_backend DISTRIBUTED_ATOMIC_COMMIT_PREFER) = 64 \<and>
   prepare_identifier (example_backend DISTRIBUTED_ATOMIC_COMMIT_PREFER)
     (participant_with_id_length 100) = Inl (ErrIdentifierTooLong (replicate 100 CHR ''a'')) \<and>
   fst (FdwXactPrepareForeignTransactions
          ((example_backend DISTRIBUTED_ATOMIC_COMMIT_PREFER)
             \<lparr>FdwXactAtomicCommitParticipants := [participant_with_id_length 100]\<rparr>)
          empty_table) = Inl (ErrIdentifierTooLong (replicate 100 CHR ''a''))"
  by code_simp

section \<open>Uniqueness of keys\<close>

text \<open>
  C6. Starting from the initial table, after any sequence of the modelled
  operations no two different positions of the live array hold entries with the
  same key (dbid, local xid, serverid, userid); every single operation keeps the
  table invariant (the slots partitioned between array and free list, the keys
  pairwise different); and \<open>insert_fdw_xact\<close> answers a key that is already in the
  table with the duplicate-entry error and returns the table as it was.
\<close>

theorem keys_stay_unique:
  "(\<forall>i j. i < numFdwXacts (run_ops ops (FdwXactShmemInit m0 lsns)) \<longrightarrow>
          j < numFdwXacts (run_ops ops (FdwXactShmemInit m0 lsns)) \<longrightarrow> i \<noteq> j \<longrightarrow>
      entry_key (pool (run_ops ops (FdwXactShmemInit m0 lsns))
                  (fdw_xacts (run_ops ops (FdwXactShmemInit m0 lsns)) ! i)) \<noteq>
      entry_key (pool (run_ops ops (FdwXactShmemInit m0 lsns))
                  (fdw_xacts (run_ops ops (FdwXactShmemInit m0 lsns)) ! j))) \<and>
   (table_inv cap s \<longrightarrow> table_inv cap (apply_op op s)) \<and>
   (has_duplicate (pool s) (fdw_xacts s) d x sv u \<longrightarrow>
      insert_fdw_xact m s d x sv u um ident = (Inl (ErrDuplicateEntry x sv u), s))"
proof (intro conjI allI impI)
  fix i j
  let ?s = "run_ops ops (FdwXactShmemInit m0 lsns)"
  assume i: "i < numFdwXacts ?s" and j: "j < numFdwXacts ?s" and ne: "i \<noteq> j"
  have "table_inv (nat m0) ?s"
    using run_ops_step [of "FdwXactShmemInit m0 lsns" ops] init_table_inv [of m0 lsns]
    by (simp add: inv_step_def)
  then have "distinct (map (\<lambda>p. entry_key (pool ?s p)) (fdw_xacts ?s))"
    by (simp add: table_inv_def keys_unique_def)
  then have "map (\<lambda>p. entry_key (pool ?s p)) (fdw_xacts ?s) ! i \<noteq>
             map (\<lambda>p. entry_key (pool ?s p)) (fdw_xacts ?s) ! j"
    using i j ne by (simp add: distinct_conv_nth numFdwXacts_def)
  then show "entry_key (pool ?s (fdw_xacts ?s ! i)) \<noteq> entry_key (pool ?s (fdw_xacts ?s ! j))"
    using i j by (simp add: numFdwXacts_def)
next
  assume "table_inv cap s"
  then show "table_inv cap (apply_op op s)"
    using apply_op_step [of s op] by (simp add: inv_step_def)
next
  assume "has_duplicate (pool s) (fdw_xacts s) d x sv u"
  then show "insert_fdw_xact m s d x sv u um ident = (Inl (ErrDuplicateEntry x sv u), s)"
    by (simp add: insert_fdw_xact_def)
qed

theorem keys_stay_unique_witness:
  "numFdwXacts two_entries = 2 \<and>
   entry_key (pool two_entries (fdw_xacts two_entries ! 0)) \<noteq>
   entry_key (pool two_entries (fdw_xacts two_entries ! 1)) \<and>
   table_inv 1 full_table \<and> table_inv 1 (apply_op (OpRemove 0) full_table) \<and>
   has_duplicate (pool full_table) (fdw_xacts full_table) 1 100 7 9 \<and>
   insert_fdw_xact 1 full_table 1 100 7 9 3 ''fx_b'' =
     (Inl (ErrDuplicateEntry 100 7 9), full_table)"
proof -
  have n: "numFdwXacts two_entries = 2" by code_simp
  have t: "table_inv 1 full_table" by code_simp
  have h: "has_duplicate (pool full_table) (fdw_xacts full_table) 1 100 7 9" by code_simp
  note k = keys_stay_unique
    [of "[OpInsert 2 1 100 7 9 3 ''fx_a'', OpInsert 2 1 100 7 10 3 ''fx_b'']" 2 example_lsns
        1 full_table "OpRemove 0" 1 100 7 9 1 3 "''fx_b''", folded two_entries_def]
  from k n have "entry_key (pool two_entries (fdw_xacts two_entries ! 0)) \<noteq>
                 entry_key (pool two_entries (fdw_xacts two_entries ! 1))"
    by simp
  with k n t h show ?thesis by simp
qed

section \<open>Capacity of the table\<close>

text \<open>
  C7 (as amended). The pool starts partitioned, and \<open>insert_fdw_xact\<close> and
  \<open>remove_fdw_xact\<close> keep the free list and the live array a partition of the
  configured slots, so the number of live entries never exceeds the capacity. When
  every slot is in use, an insert of a key that is not in the table fails with the
  out-of-memory error that carries the configuration hint, and an insert of a key
  that is already in the table fails with the duplicate-entry error (which has no
  hint); either way the table is left as it was.
\<close>

theorem insert_at_capacity:
  "slot_partition (nat m0) (FdwXactShmemInit m0 lsns) \<and>
   (slot_partition cap s \<longrightarrow>
      numFdwXacts s \<le> cap \<and>
      slot_partition cap (snd (insert_fdw_xact m s d x sv u um ident)) \<and>
      slot_partition cap (snd (remove_fdw_xact s p)) \<and>
      (numFdwXacts s = cap \<longrightarrow> \<not> has_duplicate (pool s) (fdw_xacts s) d x sv u \<longrightarrow>
         insert_fdw_xact m s d x sv u um ident =
           (Inl (ErrMaxForeignTransactionsReached m), s) \<and>
         errcode (ErrMaxForeignTransactionsReached m) = ERRCODE_OUT_OF_MEMORY \<and>
         errhint (ErrMaxForeignTransactionsReached m) \<noteq> None) \<and>
      (has_duplicate (pool s) (fdw_xacts s) d' x' sv' u' \<longrightarrow>
         insert_fdw_xact m s d' x' sv' u' um ident =
           (Inl (ErrDuplicateEntry x' sv' u'), s)))"
proof (intro conjI impI)
  show "slot_partition (nat m0) (FdwXactShmemInit m0 lsns)"
    unfolding slot_partition_iff using init_chain_partition by blast
next
  assume sp: "slot_partition cap s"
  then obtain ps where c: "chain_partition cap s ps" unfolding slot_partition_iff by blast
  from chain_partition_length [OF c] show "numFdwXacts s \<le> cap"
    by (simp add: numFdwXacts_def)
  show "slot_partition cap (snd (insert_fdw_xact m s d x sv u um ident))"
  proof (cases "fst (insert_fdw_xact m s d x sv u um ident)")
    case (Inl e)
    then have "insert_fdw_xact m s d x sv u um ident =
               (Inl e, snd (insert_fdw_xact m s d x sv u um ident))"
      by (simp add: prod_eq_iff)
    then have "snd (insert_fdw_xact m s d x sv u um ident) = s"
      by (rule insert_fdw_xact_error)
    with sp show ?thesis by simp
  next
    case (Inr q)
    then have "insert_fdw_xact m s d x sv u um ident =
               (Inr q, snd (insert_fdw_xact m s d x sv u um ident))"
      by (simp add: prod_eq_iff)
    from insert_fdw_xact_chain [OF c this] show ?thesis
      unfolding slot_partition_iff by blast
  qed
  show "slot_partition cap (snd (remove_fdw_xact s p))"
  proof (cases "fst (remove_fdw_xact s p)")
    case (Inl e)
    then have "remove_fdw_xact s p = (Inl e, snd (remove_fdw_xact s p))"
      by (simp add: prod_eq_iff)
    then have "snd (remove_fdw_xact s p) = s"
      by (rule remove_fdw_xact_error [THEN conjunct1])
    with sp show ?thesis by simp
  next
    case (Inr v)
    then have "remove_fdw_xact s p = (Inr v, snd (remove_fdw_xact s p))"
      by (simp add: prod_eq_iff)
    from remove_fdw_xact_chain [OF c this] show ?thesis
      unfolding slot_partition_iff by blast
  qed
  {
    assume full: "numFdwXacts s = cap"
      and nd: "\<not> has_duplicate (pool s) (fdw_xacts s) d x sv u"
    from chain_partition_length [OF c] full have "ps = []"
      by (simp add: numFdwXacts_def)
    with c have "freeFdwXacts s = None" by (simp add: chain_partition_def)
    with nd show "insert_fdw_xact m s d x sv u um ident =
                    (Inl (ErrMaxForeignTransactionsReached m), s)"
      by (simp add: insert_fdw_xact_def)
    show "errcode (ErrMaxForeignTransactionsReached m) = ERRCODE_OUT_OF_MEMORY" by simp
    show "errhint (ErrMaxForeignTransactionsReached m) \<noteq> None" by simp
  }
  {
    assume "has_duplicate (pool s) (fdw_xacts s) d' x' sv' u'"
    then show "insert_fdw_xact m s d' x' sv' u' um ident =
                 (Inl (ErrDuplicateEntry x' sv' u'), s)"
      by (simp add: insert_fdw_xact_def)
  }
qed

theorem insert_at_capacity_witness:
  "slot_partition 1 full_table \<and> numFdwXacts full_table = 1 \<and>
   \<not> has_duplicate (pool full_table) (fdw_xacts full_table) 1 100 7 10 \<and>
   has_duplicate (pool full_table) (fdw_xacts full_table) 1 100 7 9 \<and>
   insert_fdw_xact 1 full_table 1 100 7 10 3 ''fx_b'' =
     (Inl (ErrMaxForeignTransactionsReached 1), full_table) \<and>
   insert_fdw_xact 1 full_table 1 100 7 9 3 ''fx_b'' =
     (Inl (ErrDuplicateEntry 100 7 9), full_table) \<and>
   slot_partition 1 (snd (remove_fdw_xact full_table 0))"
proof -
  have h1: "slot_partition 1 full_table" by code_simp
  have h2: "numFdwXacts full_table = 1" by code_simp
  have h3: "\<not> has_duplicate (pool full_table) (fdw_xacts full_table) 1 100 7 10" by code_simp
  have h4: "has_duplicate (pool full_table) (fdw_xacts full_table) 1 100 7 9" by code_simp
  show ?thesis
    using insert_at_capacity [of 1 example_lsns 1 full_table 1 1 100 7 10 3 "''fx_b''" 0 1 100 7 9]
      h1 h2 h3 h4
    by simp
qed

theorem insert_at_capacity_counterexample:
  "numFdwXacts full_table = 1 \<and> freeFdwXacts full_table = None \<and>
   fst (insert_fdw_xact 1 full_table 1 100 7 9 3 ''fx_b'') = Inl (ErrDuplicateEntry 100 7 9) \<and>
   errhint (ErrDuplicateEntry 100 7 9) = None \<and>
   errcode (ErrDuplicateEntry 100 7 9) = ERRCODE_INTERNAL_ERROR"
  by code_simp

section \<open>Removal after resolution\<close>

text \<open>
  C8, evaluated where the code departs from it. \<open>pg_resolve_fdw_xact\<close> calls
  \<open>FdwXactResolveForeignTransaction\<close> at level \<open>LOG\<close>. With a resolve callback that
  reports failure the function returns false, and still the entry is gone from the
  table and a REMOVE record has been written; the resolver, which calls at level
  \<open>ERROR\<close>, keeps the entry in the same situation.
\<close>

theorem failed_resolution_removes_entry:
  "fdw_xacts prepared_table = [7] \<and>
   fst (pg_resolve_fdw_xact True (env_with failing_routine True False False)
          (example_backend DISTRIBUTED_ATOMIC_COMMIT_PREFER) prepared_table 100 7 9) =
     Inr False \<and>
   fdw_xacts (snd (pg_resolve_fdw_xact True (env_with failing_routine True False False)
          (example_backend DISTRIBUTED_ATOMIC_COMMIT_PREFER) prepared_table 100 7 9)) = [] \<and>
   history (snd (pg_resolve_fdw_xact True (env_with failing_routine True False False)
          (example_backend DISTRIBUTED_ATOMIC_COMMIT_PREFER) prepared_table 100 7 9)) =
     history prepared_table @
     [EvResolve \<lparr>st_serverid = 7, st_userid = 9, st_umid = 5, st_fdwxact_id = None\<rparr> True False,
      EvXLogFlush (XLOG_FDW_XACT_REMOVE 1 100 7 9)] \<and>
   fst (resolve_waiter (env_with failing_routine True False False) prepared_table 1 100) =
     Inl (ErrCouldNotResolve True 7) \<and>
   fdw_xacts (snd (resolve_waiter (env_with failing_routine True False False)
                     prepared_table 1 100)) = [7]"
  by code_simp

section \<open>Replaying the redo log\<close>

text \<open>
  C9 (as amended). Take a table that satisfies the invariant and a sequence of
  INSERT and REMOVE records whose REMOVE records name valid ids. If replaying the
  sequence \<open>n + 1\<close> times in a row succeeds, then replaying it once succeeds and
  the table holds the same entries afterwards: the same keys bound to the same
  contents (the slot and the array position of an entry may differ). A repeated
  replay does not always succeed: the redo of an INSERT record directly after
  itself fails with the duplicate-entry error and leaves the table as the first
  redo left it.
\<close>

theorem redo_idempotent_when_it_succeeds:
  "(table_inv cap s \<longrightarrow> (\<forall>r \<in> set rs. remove_key_valid r) \<longrightarrow>
      fst (redo_times m (Suc n) s rs) = Inr () \<longrightarrow>
        fst (redo_all m s rs) = Inr () \<and>
        table_map (snd (redo_times m (Suc n) s rs)) = table_map (snd (redo_all m s rs))) \<and>
   (fst (fdw_xact_redo m s (a, b, XLOG_FDW_XACT_INSERT d x sv u um ident)) = Inr () \<longrightarrow>
      fdw_xact_redo m (snd (fdw_xact_redo m s (a, b, XLOG_FDW_XACT_INSERT d x sv u um ident)))
        (a, b, XLOG_FDW_XACT_INSERT d x sv u um ident) =
        (Inl (ErrDuplicateEntry x sv u),
         snd (fdw_xact_redo m s (a, b, XLOG_FDW_XACT_INSERT d x sv u um ident))))"
proof (intro conjI impI)
  assume inv: "table_inv cap s" and va: "\<forall>r \<in> set rs. remove_key_valid r"
    and ok: "fst (redo_times m (Suc n) s rs) = Inr ()"
  obtain res s1 where f: "redo_all m s rs = (res, s1)" by (cases "redo_all m s rs")
  from ok f have res: "res = Inr ()" by (cases res) simp_all
  then show one: "fst (redo_all m s rs) = Inr ()" by (simp add: f)
  have "table_map (snd (redo_all m s rs)) = map_redo_all rs (table_map s)"
    using redo_all_map [OF inv va one] by simp
  moreover have "table_map (snd (redo_times m (Suc n) s rs)) = map_redo_all rs (table_map s)"
    by (rule redo_times_map [OF inv va ok])
  ultimately show "table_map (snd (redo_times m (Suc n) s rs)) =
                   table_map (snd (redo_all m s rs))"
    by simp
next
  assume ok: "fst (fdw_xact_redo m s (a, b, XLOG_FDW_XACT_INSERT d x sv u um ident)) = Inr ()"
  define s1 where "s1 = snd (FdwXactRedoAdd m s d x sv u um ident a b)"
  obtain r s0 where ins: "insert_fdw_xact m s d x sv u um ident = (r, s0)"
    by (cases "insert_fdw_xact m s d x sv u um ident")
  from ok ins obtain p where r: "r = Inr p"
    by (cases r) (simp_all add: FdwXactRedoAdd_def)
  note f = insert_fdw_xact_success [OF ins [unfolded r]]
  have s1: "s1 = s0\<lparr>pool := (pool s0)
               (p := (pool s0 p)
                  \<lparr>status := FDW_XACT_PREPARING, insert_start_lsn := a,
                   insert_end_lsn := b, inredo := True, valid := False,
                   ondisk := XLogRecPtrIsInvalid a\<rparr>)\<rparr>"
    using ins r by (simp add: s1_def FdwXactRedoAdd_def)
  have "p \<in> set (fdw_xacts s1)" by (simp add: s1 f(3))
  moreover have "entry_key (pool s1 p) = (d, x, sv, u)" by (simp add: s1 f(3) entry_key_def)
  ultimately have "has_duplicate (pool s1) (fdw_xacts s1) d x sv u"
    unfolding has_duplicate_iff by (metis imageI)
  then have "insert_fdw_xact m s1 d x sv u um ident = (Inl (ErrDuplicateEntry x sv u), s1)"
    by (simp add: insert_fdw_xact_def)
  then have "FdwXactRedoAdd m s1 d x sv u um ident a b = (Inl (ErrDuplicateEntry x sv u), s1)"
    by (simp add: FdwXactRedoAdd_def)
  then show "fdw_xact_redo m
               (snd (fdw_xact_redo m s (a, b, XLOG_FDW_XACT_INSERT d x sv u um ident)))
               (a, b, XLOG_FDW_XACT_INSERT d x sv u um ident) =
             (Inl (ErrDuplicateEntry x sv u),
              snd (fdw_xact_redo m s (a, b, XLOG_FDW_XACT_INSERT d x sv u um ident)))"
    by (simp add: s1_def)
qed

theorem redo_idempotent_when_it_succeeds_witness:
  "table_inv 8 recovering_table \<and> remove_key_valid insert_record \<and>
   remove_key_valid remove_record \<and>
   fst (redo_times 8 2 recovering_table [insert_record, remove_record]) = Inr () \<and>
   fst (redo_all 8 recovering_table [insert_record, remove_record]) = Inr () \<and>
   table_map (snd (redo_times 8 2 recovering_table [insert_record, remove_record])) =
     table_map (snd (redo_all 8 recovering_table [insert_record, remove_record])) \<and>
   fst (fdw_xact_redo 8 recovering_table insert_record) = Inr () \<and>
   fst (fdw_xact_redo 8 (snd (fdw_xact_redo 8 recovering_table insert_record)) insert_record) =
     Inl (ErrDuplicateEntry 100 7 9)"
proof -
  have h1: "table_inv 8 recovering_table" by code_simp
  have h2: "\<forall>r \<in> set [insert_record, remove_record]. remove_key_valid r" by code_simp
  have h3: "fst (redo_times 8 (Suc 1) recovering_table [insert_record, remove_record]) = Inr ()"
    by code_simp
  have h4: "fst (fdw_xact_redo 8 recovering_table
                   (8, 16, XLOG_FDW_XACT_INSERT 1 100 7 9 5 ''fx_ex'')) = Inr ()"
    by code_simp
  have two: "Suc 1 = 2" by simp
  note t = redo_idempotent_when_it_succeeds
    [of 8 recovering_table "[insert_record, remove_record]" 8 1 8 16 1 100 7 9 5 "''fx_ex''"]
  from t h1 h2 h3 have a:
    "fst (redo_all 8 recovering_table [insert_record, remove_record]) = Inr () \<and>
     table_map (snd (redo_times 8 (Suc 1) recovering_table [insert_record, remove_record])) =
       table_map (snd (redo_all 8 recovering_table [insert_record, remove_record]))"
    by blast
  from t h4 have b:
    "fst (fdw_xact_redo 8 (snd (fdw_xact_redo 8 recovering_table insert_record))
            insert_record) = Inl (ErrDuplicateEntry 100 7 9)"
    unfolding insert_record_def by simp
  from h1 h2 h3 h4 a b show ?thesis
    unfolding two by (simp add: insert_record_def [symmetric])
qed

theorem redo_idempotent_when_it_succeeds_counterexample:
  "fst (redo_times 8 1 recovering_table [insert_record, insert_record_b, remove_record]) =
     Inr () \<and>
   map (\<lambda>p. entry_key
          (pool (snd (redo_times 8 1 recovering_table
                        [insert_record, insert_record_b, remove_record])) p))
     (fdw_xacts (snd (redo_times 8 1 recovering_table
                        [insert_record, insert_record_b, remove_record]))) =
     [(1, 100, 7, 10)] \<and>
   fst (redo_times 8 2 recovering_table [insert_record, insert_record_b, remove_record]) =
     Inl (ErrDuplicateEntry 100 7 10) \<and>
   map (\<lambda>p. entry_key
          (pool (snd (redo_times 8 2 recovering_table
                        [insert_record, insert_record_b, remove_record])) p))
     (fdw_xacts (snd (redo_times 8 2 recovering_table
                        [insert_record, insert_record_b, remove_record]))) =
     [(1, 100, 7, 10), (1, 100, 7, 9)]"
  by code_simp


section \<open>Listing the prepared foreign transactions\<close>

text \<open>
  C10. The rows of \<open>pg_prepared_fdw_xacts\<close> are exactly the rows of the entries of
  the live array whose \<open>valid\<close> flag is set, in array order: every row comes from an
  entry that is valid in the snapshot, and an entry that is not valid (mid-insert,
  or replayed and not yet revalidated) yields no row.
\<close>

theorem prepared_rows_are_valid:
  "pg_prepared_fdw_xacts s = map row_of (filter valid (map (pool s) (fdw_xacts s))) \<and>
   (\<forall>r \<in> set (pg_prepared_fdw_xacts s).
      \<exists>p \<in> set (fdw_xacts s). valid (pool s p) \<and> r = row_of (pool s p)) \<and>
   length (pg_prepared_fdw_xacts s) = length (filter (\<lambda>p. valid (pool s p)) (fdw_xacts s))"
proof -
  have eq: "pg_prepared_fdw_xacts s = map row_of (filter valid (map (pool s) (fdw_xacts s)))"
    by (simp add: pg_prepared_fdw_xacts_def get_all_fdw_xacts_def get_fdw_xacts_def
          get_fdw_xacts_loop_all prepared_rows_filter)
  have "\<forall>r \<in> set (pg_prepared_fdw_xacts s).
      \<exists>p \<in> set (fdw_xacts s). valid (pool s p) \<and> r = row_of (pool s p)"
    unfolding eq by auto
  moreover have "length (pg_prepared_fdw_xacts s) =
                 length (filter (\<lambda>p. valid (pool s p)) (fdw_xacts s))"
    unfolding eq by (simp add: filter_map comp_def)
  ultimately show ?thesis using eq by blast
qed

theorem prepared_rows_are_valid_witness:
  "fdw_xacts mixed_table = [7, 6] \<and> valid (pool mixed_table 7) \<and>
   \<not> valid (pool mixed_table 6) \<and>
   pg_prepared_fdw_xacts mixed_table = [(1, 100, 7, 9, ''unknown'', ''fx_ex'')] \<and>
   (1, 100, 7, 9, ''unknown'', ''fx_ex'') = row_of (pool mixed_table 7)"
proof -
  have a: "fdw_xacts mixed_table = [7, 6]" by code_simp
  have b: "valid (pool mixed_table 7)" by code_simp
  have c: "\<not> valid (pool mixed_table 6)" by code_simp
  have d: "row_of (pool mixed_table 7) = (1, 100, 7, 9, ''unknown'', ''fx_ex'')" by code_simp
  from prepared_rows_are_valid [of mixed_table]
  have "pg_prepared_fdw_xacts mixed_table =
        map row_of (filter valid (map (pool mixed_table) (fdw_xacts mixed_table)))"
    by (rule conjunct1)
  with a b c d show ?thesis by simp
qed

end
